theory Spec2Isabelle
  imports Main "HOL-Library.Word"
begin

section \<open>Errors\<close>

text \<open>
  The Python exceptions that the modelled code can raise: \<open>ValueError\<close>
  (\<open>datetime.date\<close> out of range, \<open>idxmax\<close> of an empty series, a reindex
  over duplicate labels), \<open>KeyError\<close> (selecting a column that the frame does not
  have) and \<open>TypeError\<close> (adding text to a number).
\<close>

datatype error = ValueError | KeyError | TypeError

section \<open>Calendar generator\<close>

text \<open>
  \<open>datetime.date(y, m, 1)\<close>: the script builds first-of-month dates only, so the
  day is left out of the record. The constructor accepts years \<open>MINYEAR = 1\<close> to
  \<open>MAXYEAR = 9999\<close> and months 1 to 12, and raises \<open>ValueError\<close> otherwise.
\<close>

record date =
  year :: int
  month :: int

definition datetime_date :: "int \<Rightarrow> int \<Rightarrow> error + date" where
  "datetime_date y m =
     (if 1 \<le> y \<and> y \<le> 9999 \<and> 1 \<le> m \<and> m \<le> 12
      then Inr \<lparr>year = y, month = m\<rparr> else Inl ValueError)"

text \<open>
  \<open>strftime("%b '%y")\<close> in the C locale: the abbreviated English month name, a
  blank, an apostrophe and the year without its century as two decimal digits.
\<close>

definition month_names :: "string list" where
  "month_names = [''Jan'', ''Feb'', ''Mar'', ''Apr'', ''May'', ''Jun'',
                  ''Jul'', ''Aug'', ''Sep'', ''Oct'', ''Nov'', ''Dec'']"

definition month_abbr :: "int \<Rightarrow> string" where
  "month_abbr m = month_names ! nat (m - 1)"

definition digit :: "int \<Rightarrow> char" where
  "digit d = ''0123456789'' ! nat d"

definition two_digits :: "int \<Rightarrow> string" where
  "two_digits n = [digit (n div 10), digit (n mod 10)]"

definition strftime :: "date \<Rightarrow> string" where
  "strftime d = month_abbr (month d) @ '' '' @ [CHR 0x27] @ two_digits (year d mod 100)"

text \<open>The body of the loop after the append: the first day of the next month.\<close>

definition next_month :: "date \<Rightarrow> error + date" where
  "next_month current_date =
     (if month current_date = 12
      then datetime_date (year current_date + 1) 1
      else datetime_date (year current_date) (month current_date + 1))"

text \<open>
  \<open>for _ in range(months_count)\<close>: each round appends the label of the current
  date and then moves to the next month, also in the last round, whose new date is
  never printed. An exception of the date constructor leaves the loop.
\<close>

fun month_loop :: "nat \<Rightarrow> date \<Rightarrow> string list \<Rightarrow> error + string list" where
  "month_loop 0 current_date cols = Inr cols"
| "month_loop (Suc n) current_date cols =
     (case next_month current_date of
        Inl e \<Rightarrow> Inl e
      | Inr d \<Rightarrow> month_loop n d (cols @ [strftime current_date]))"

text \<open>\<open>range\<close> of a count below 1 is empty, which \<open>nat\<close> gives as well.\<close>

definition get_month_columns :: "int \<Rightarrow> int \<Rightarrow> int \<Rightarrow> error + string list" where
  "get_month_columns start_year start_month months_count =
     (case datetime_date start_year start_month of
        Inl e \<Rightarrow> Inl e
      | Inr current_date \<Rightarrow> month_loop (nat months_count) current_date [])"

text \<open>
  The horizon of the script, \<open>all_months = get_month_columns()\<close> with the default
  arguments. The call returns (lemma \<open>all_months_returns\<close> below), so the list is
  read off the right injection.
\<close>

definition all_months :: "string list" where
  "all_months = projr (get_month_columns 2025 7 25)"

text \<open>
  Python list slices \<open>xs[:k]\<close> and \<open>xs[k:]\<close>: a negative bound counts from the
  end, and every bound is clamped to the list, so a slice never raises.
\<close>

definition slice_bound :: "'a list \<Rightarrow> int \<Rightarrow> nat" where
  "slice_bound xs k = (if k < 0 then nat (int (length xs) + k) else min (nat k) (length xs))"

definition slice_to :: "'a list \<Rightarrow> int \<Rightarrow> 'a list" where
  "slice_to xs k = take (slice_bound xs k) xs"

definition slice_from :: "'a list \<Rightarrow> int \<Rightarrow> 'a list" where
  "slice_from xs k = drop (slice_bound xs k) xs"

text \<open>
  The split of the horizon, lines 41 and 42 of the script with the bound 12 as a
  parameter: the script has no check of the bound and no error path.
\<close>

definition split_phases :: "string list \<Rightarrow> int \<Rightarrow> string list \<times> string list" where
  "split_phases months first_phase_length =
     (slice_to months first_phase_length, slice_from months first_phase_length)"

definition phase1_cols :: "string list" where
  "phase1_cols = fst (split_phases all_months 12)"

definition phase2_cols :: "string list" where
  "phase2_cols = snd (split_phases all_months 12)"

text \<open>
  The calendar as month numbers, to say what a label denotes: month \<open>k\<close> is month
  \<open>k mod 12 + 1\<close> of year \<open>k div 12\<close>, so month \<open>k + 1\<close> is the calendar month
  after month \<open>k\<close>, across a year's end as well.
\<close>

definition month_number :: "int \<Rightarrow> int \<Rightarrow> int" where
  "month_number y m = 12 * y + (m - 1)"

definition date_of_number :: "int \<Rightarrow> date" where
  "date_of_number k = \<lparr>year = k div 12, month = k mod 12 + 1\<rparr>"

section \<open>Data frames\<close>

text \<open>
  A pandas \<open>DataFrame\<close> as the script uses it: an index of row labels and an
  ordered collection of named columns, each a list of cells with one cell for each
  index label. A cell holds a number, a text or the missing value (\<open>NaN\<close>,
  \<open>None\<close>). Numbers are integers: the script seeds the table with integers and
  edits it through a number column. A month column of the table is an \<open>int64\<close>
  array, and the sums of pandas over it are 64-bit sums (see \<open>sum_cells\<close> below).
\<close>

datatype label = RowNum nat | RowName string

datatype cell = Num int | Str string | NaN

record frame =
  df_index :: "label list"
  df_columns :: "(string \<times> cell list) list"

fun is_text :: "cell \<Rightarrow> bool" where
  "is_text (Str s) = True"
| "is_text c = False"


text \<open>
  A Python dictionary that keeps insertion order, as an association list:
  \<open>d[k] = v\<close> replaces the value of a key that is present and appends a new key
  otherwise. Assigning a column of a frame (\<open>df[c] = values\<close>) works the same way.
\<close>

fun set_item :: "(string \<times> 'v) list \<Rightarrow> string \<Rightarrow> 'v \<Rightarrow> (string \<times> 'v) list" where
  "set_item [] k v = [(k, v)]"
| "set_item ((k', v') # d) k v =
     (if k' = k then (k, v) # d else (k', v') # set_item d k v)"

definition df_set_column :: "frame \<Rightarrow> string \<Rightarrow> cell list \<Rightarrow> frame" where
  "df_set_column df c xs = df\<lparr>df_columns := set_item (df_columns df) c xs\<rparr>"


text \<open>
  \<open>df[cols]\<close> with a list of names: the named columns in the order of the list, or
  \<open>KeyError\<close> when a name is not a column of the frame.
\<close>

definition has_columns :: "frame \<Rightarrow> string list \<Rightarrow> bool" where
  "has_columns df cols = (\<forall>c\<in>set cols. map_of (df_columns df) c \<noteq> None)"

definition df_select :: "frame \<Rightarrow> string list \<Rightarrow> error + frame" where
  "df_select df cols =
     (if has_columns df cols
      then Inr (df\<lparr>df_columns := map (\<lambda>c. (c, the (map_of (df_columns df) c))) cols\<rparr>)
      else Inl KeyError)"

text \<open>
  The sum of an \<open>int64\<close> column is computed in 64-bit two's complement
  arithmetic: it wraps around at \<open>2^63\<close> and raises nothing. The sums of the
  model are therefore 64-bit words, read as signed numbers with \<open>sint\<close>. Sums
  skip missing cells (\<open>skipna=True\<close>), so a missing cell adds nothing; pandas
  holds a column with a missing cell as \<open>float64\<close>, and the tables of a session
  have no such column. The script sums month columns only; a text cell in a sum is
  reported as \<open>TypeError\<close>.
\<close>

type_synonym int64 = "64 word"

fun cell_value :: "cell \<Rightarrow> error + int64" where
  "cell_value (Num n) = Inr (word_of_int n)"
| "cell_value NaN = Inr 0"
| "cell_value (Str s) = Inl TypeError"

text \<open>The integer that a cell holds; a cell that is not a number counts as 0.\<close>

fun cell_int :: "cell \<Rightarrow> int" where
  "cell_int (Num n) = n"
| "cell_int c = 0"

text \<open>The 64-bit number that a cell adds to a sum when it is not a text.\<close>

definition cell_word :: "cell \<Rightarrow> int64" where
  "cell_word c = word_of_int (cell_int c)"

text \<open>An integer that is an \<open>int64\<close> number, and a cell that holds one.\<close>

definition int64_range :: "int \<Rightarrow> bool" where
  "int64_range k \<longleftrightarrow> - (2 ^ 63) \<le> k \<and> k < 2 ^ 63"

fun int64_cell :: "cell \<Rightarrow> bool" where
  "int64_cell (Num n) = int64_range n"
| "int64_cell c = False"

fun sum_cells :: "cell list \<Rightarrow> error + int64" where
  "sum_cells [] = Inr 0"
| "sum_cells (x # xs) =
     (case cell_value x of
        Inl e \<Rightarrow> Inl e
      | Inr n \<Rightarrow> (case sum_cells xs of Inl e \<Rightarrow> Inl e | Inr s \<Rightarrow> Inr (n + s)))"

text \<open>The results of a list of computations, or the first error among them.\<close>

fun collect :: "(error + 'a) list \<Rightarrow> error + 'a list" where
  "collect [] = Inr []"
| "collect (r # rs) =
     (case r of
        Inl e \<Rightarrow> Inl e
      | Inr x \<Rightarrow> (case collect rs of Inl e \<Rightarrow> Inl e | Inr xs \<Rightarrow> Inr (x # xs)))"

text \<open>
  \<open>df.sum()\<close>: a series with one sum for each column, labelled by the column names
  in the order of the columns.
\<close>

definition column_sum :: "string \<times> cell list \<Rightarrow> error + string \<times> int64" where
  "column_sum col = (case sum_cells (snd col) of Inl e \<Rightarrow> Inl e | Inr s \<Rightarrow> Inr (fst col, s))"

definition df_sum :: "frame \<Rightarrow> error + (string \<times> int64) list" where
  "df_sum df = collect (map column_sum (df_columns df))"

text \<open>\<open>df.sum(axis=1)\<close>: one sum for each row, over all columns of the frame.\<close>

definition df_row :: "frame \<Rightarrow> nat \<Rightarrow> cell list" where
  "df_row df i = map (\<lambda>col. snd col ! i) (df_columns df)"

definition df_sum_axis1 :: "frame \<Rightarrow> error + int64 list" where
  "df_sum_axis1 df = collect (map (\<lambda>i. sum_cells (df_row df i)) [0..<length (df_index df)])"

text \<open>
  A series of \<open>int64\<close> numbers: \<open>sum\<close> (a 64-bit sum again), \<open>idxmax\<close> (the
  label of the first occurrence of the maximum, \<open>ValueError\<close> on an empty series)
  and \<open>max\<close> (missing on an empty series). The entries are compared as signed
  numbers. The scan keeps the best entry so far and replaces it only by a strictly
  larger one.
\<close>

definition series_sum :: "(string \<times> int64) list \<Rightarrow> int64" where
  "series_sum s = sum_list (map snd s)"

fun first_max :: "string \<times> int64 \<Rightarrow> (string \<times> int64) list \<Rightarrow> string \<times> int64" where
  "first_max best [] = best"
| "first_max best (x # xs) =
     (if sint (snd best) < sint (snd x) then first_max x xs else first_max best xs)"

definition series_idxmax :: "(string \<times> int64) list \<Rightarrow> error + string" where
  "series_idxmax s = (case s of [] \<Rightarrow> Inl ValueError | x # xs \<Rightarrow> Inr (fst (first_max x xs)))"

definition series_max :: "(string \<times> int64) list \<Rightarrow> int64 option" where
  "series_max s = (case s of [] \<Rightarrow> None | x # xs \<Rightarrow> Some (snd (first_max x xs)))"

text \<open>
  \<open>self.update(other)\<close>: \<open>other\<close> is reindexed to the index of \<open>self\<close> (a row
  label that \<open>other\<close> does not have gives a missing cell; duplicate labels in an
  index that differs from the target raise \<open>ValueError\<close>), and in every column
  that both frames have, each cell of \<open>self\<close> is replaced by the cell of
  \<open>other\<close> unless that cell is missing. Columns that only \<open>other\<close> has are
  ignored.
\<close>

definition reindex :: "label list \<Rightarrow> label list \<Rightarrow> cell list \<Rightarrow> cell list" where
  "reindex new_index old_index xs =
     (if new_index = old_index then xs
      else map (\<lambda>l. case map_of (zip old_index xs) l of None \<Rightarrow> NaN | Some x \<Rightarrow> x) new_index)"

definition where_isna :: "cell list \<Rightarrow> cell list \<Rightarrow> cell list" where
  "where_isna this that = map (\<lambda>(a, b). if b = NaN then a else b) (zip this that)"

definition update_column :: "frame \<Rightarrow> frame \<Rightarrow> string \<times> cell list \<Rightarrow> string \<times> cell list" where
  "update_column self other col =
     (case map_of (df_columns other) (fst col) of
        None \<Rightarrow> col
      | Some that \<Rightarrow>
          (fst col, where_isna (snd col) (reindex (df_index self) (df_index other) that)))"

definition df_update :: "frame \<Rightarrow> frame \<Rightarrow> error + frame" where
  "df_update self other =
     (if df_index other \<noteq> df_index self \<and> \<not> distinct (df_index other)
      then Inl ValueError
      else Inr (self\<lparr>df_columns := map (update_column self other) (df_columns self)\<rparr>))"

section \<open>Session state and initialisation\<close>

text \<open>
  \<open>st.session_state\<close> with the two keys of the script; \<open>None\<close> is a key that is
  not in the session state.
\<close>

record session_state =
  resource_df :: "frame option"
  deliverables_df :: "frame option"

definition seed_data :: "(string \<times> cell list) list" where
  "seed_data =
     [(''Resource'', map Str [''Sarah Jenkins'', ''David Chen'', ''Priya Patel'',
                              ''Marcus Johnson'', ''Analyst Pool'']),
      (''Role'', map Str [''Partner'', ''Engagement Mgr'', ''Senior Associate'',
                          ''Associate'', ''Analyst Support'']),
      (''Grade'', map Str [''L1'', ''L3'', ''L4'', ''L5'', ''L6''])]"

text \<open>\<open>for month in all_months: data[month] = [0, 0, 0, 0, 0]\<close>\<close>

definition initial_data :: "string list \<Rightarrow> (string \<times> cell list) list" where
  "initial_data months =
     fold (\<lambda>month data. set_item data month [Num 0, Num 0, Num 0, Num 0, Num 0]) months seed_data"

text \<open>
  \<open>pd.DataFrame(data)\<close>: every list of \<open>data\<close> has five entries, so the frame
  gets the default index 0 to 4.
\<close>

definition initial_resource_df :: frame where
  "initial_resource_df =
     \<lparr>df_index = map RowNum [0..<5], df_columns = initial_data all_months\<rparr>"

text \<open>
  \<open>pd.DataFrame([[""] * len(all_months)], columns=all_months, index=["Key Deliverables"])\<close>
\<close>

definition initial_deliverables_df :: frame where
  "initial_deliverables_df =
     \<lparr>df_index = [RowName ''Key Deliverables''],
      df_columns = map (\<lambda>month. (month, [Str ''''])) all_months\<rparr>"

text \<open>The two guarded initialisations, lines 45 to 63, in their order.\<close>

definition initialize :: "session_state \<Rightarrow> session_state" where
  "initialize st =
     (let st1 = (if resource_df st = None
                 then st\<lparr>resource_df := Some initial_resource_df\<rparr> else st)
      in if deliverables_df st1 = None
         then st1\<lparr>deliverables_df := Some initial_deliverables_df\<rparr> else st1)"

section \<open>Phase view and reconciliation\<close>

text \<open>
  Step 1 of \<open>render_phase_view\<close>: the copy of the metadata and month columns of the
  phase, with the row sums over the month columns as the column "Phase Total".
\<close>

definition phase_view :: "frame \<Rightarrow> string list \<Rightarrow> error + frame" where
  "phase_view resource cols =
     (case df_select resource ([''Resource'', ''Role''] @ cols) of
        Inl e \<Rightarrow> Inl e
      | Inr df_view \<Rightarrow>
          (case df_select df_view cols of
             Inl e \<Rightarrow> Inl e
           | Inr months \<Rightarrow>
               (case df_sum_axis1 months of
                  Inl e \<Rightarrow> Inl e
                | Inr totals \<Rightarrow>
                    Inr (df_set_column df_view ''Phase Total'' (map (\<lambda>w. Num (sint w)) totals)))))"

text \<open>
  What \<open>st.data_editor\<close> can hand back for the view it was given: the rows are
  fixed (\<open>num_rows\<close> is left at its default), so the index and the columns are those
  of the view; the columns "Resource", "Role" and "Phase Total" are disabled and come
  back as they were; a cell of a month column is a number (the editor sets no
  minimum, so also a negative one) or missing when the user cleared it.
\<close>

definition editor_output :: "frame \<Rightarrow> string list \<Rightarrow> frame \<Rightarrow> bool" where
  "editor_output df_view cols edited_df \<longleftrightarrow>
     df_index edited_df = df_index df_view \<and>
     map fst (df_columns edited_df) = map fst (df_columns df_view) \<and>
     (\<forall>col\<in>set (df_columns edited_df).
        length (snd col) = length (df_index df_view) \<and>
        (if fst col \<in> set cols then \<forall>x\<in>set (snd col). \<not> is_text x
         else map_of (df_columns df_view) (fst col) = Some (snd col)))"

text \<open>
  Step 4 of \<open>render_phase_view\<close>: when the edited grid differs from the view, the
  month columns of the grid are written into the table with \<open>update\<close> and a rerun
  is requested (the flag of the result). An exception leaves the session state as it
  was. \<open>DataFrame.equals\<close> compares the storage types of the columns as well, which
  the model does not have; the table after the step is the same whichever way the
  comparison goes (lemma \<open>sync_edits_table\<close>), only the rerun depends on it.
\<close>

definition sync_edits :: "frame \<Rightarrow> string list \<Rightarrow> frame \<Rightarrow> error + frame \<times> bool" where
  "sync_edits resource cols edited_df =
     (case phase_view resource cols of
        Inl e \<Rightarrow> Inl e
      | Inr df_view \<Rightarrow>
          if edited_df \<noteq> df_view
          then (case df_select edited_df cols of
                  Inl e \<Rightarrow> Inl e
                | Inr patch \<Rightarrow>
                    (case df_update resource patch of
                       Inl e \<Rightarrow> Inl e
                     | Inr updated \<Rightarrow> Inr (updated, True)))
          else Inr (resource, False))"

section \<open>Aggregation\<close>

text \<open>\<open>df[cols].sum()\<close>, the per-month totals of lines 130 and 174.\<close>

definition month_totals :: "frame \<Rightarrow> string list \<Rightarrow> error + (string \<times> int64) list" where
  "month_totals resource cols =
     (case df_select resource cols of Inl e \<Rightarrow> Inl e | Inr sel \<Rightarrow> df_sum sel)"

text \<open>
  Step 6 of \<open>render_phase_view\<close>: the total days of the phase, the peak month and
  its day count.
\<close>

definition phase_summary ::
  "frame \<Rightarrow> string list \<Rightarrow> error + int64 \<times> string \<times> int64 option" where
  "phase_summary resource cols =
     (case month_totals resource cols of
        Inl e \<Rightarrow> Inl e
      | Inr totals \<Rightarrow>
          (case series_idxmax totals of
             Inl e \<Rightarrow> Inl e
           | Inr busy_month \<Rightarrow> Inr (series_sum totals, busy_month, series_max totals)))"

text \<open>\<open>grand_total = resource_df[all_months].sum().sum()\<close>\<close>

definition grand_total :: "frame \<Rightarrow> error + int64" where
  "grand_total resource =
     (case month_totals resource all_months of
        Inl e \<Rightarrow> Inl e
      | Inr totals \<Rightarrow> Inr (series_sum totals))"

text \<open>All cells of a frame, column after column.\<close>

definition all_cells :: "frame \<Rightarrow> cell list" where
  "all_cells df = concat (map snd (df_columns df))"

section \<open>States of the allocation table\<close>

text \<open>
  The shape that the allocation table has throughout a session: five rows, the
  three metadata columns followed by the months of the horizon, and no text in a
  month column.
\<close>

definition table_shape :: "frame \<Rightarrow> bool" where
  "table_shape t \<longleftrightarrow>
     df_index t = map RowNum [0..<5] \<and>
     map fst (df_columns t) = [''Resource'', ''Role'', ''Grade''] @ all_months \<and>
     (\<forall>col\<in>set (df_columns t).
        length (snd col) = 5 \<and>
        (fst col \<in> set all_months \<longrightarrow> (\<forall>x\<in>set (snd col). \<not> is_text x)))"


text \<open>
  A table whose month columns are \<open>int64\<close> arrays: every month column is there
  and every cell of it is a number from \<open>-2^63\<close> to \<open>2^63 - 1\<close>. The sums of
  pandas are 64-bit sums on these tables.
\<close>

definition int64_table :: "frame \<Rightarrow> bool" where
  "int64_table t \<longleftrightarrow>
     (\<forall>m\<in>set all_months.
        case map_of (df_columns t) m of
          None \<Rightarrow> False
        | Some xs \<Rightarrow> (\<forall>x\<in>set xs. int64_cell x))"

text \<open>
  The session states that the runs of the script produce. A session starts with
  neither table. Every run begins with the two guarded initialisations. In the view
  of a phase the editor hands back a grid, and the reconciliation assigns the
  allocation table. The deliverables editor assigns the deliverables table only; the
  relation leaves open which frame it stores. The summaries, the export and the
  grand total assign nothing.
\<close>

definition empty_session :: session_state where
  "empty_session = \<lparr>resource_df = None, deliverables_df = None\<rparr>"

inductive reachable :: "session_state \<Rightarrow> bool" where
  fresh: "reachable empty_session"
| initialized: "reachable st \<Longrightarrow> reachable (initialize st)"
| edited: "reachable st \<Longrightarrow> resource_df st = Some t \<Longrightarrow>
     cols = phase1_cols \<or> cols = phase2_cols \<Longrightarrow>
     phase_view t cols = Inr df_view \<Longrightarrow> editor_output df_view cols edited_df \<Longrightarrow>
     sync_edits t cols edited_df = Inr (t', rerun) \<Longrightarrow>
     reachable (st\<lparr>resource_df := Some t'\<rparr>)"
| noted: "reachable st \<Longrightarrow> deliverables_df st = Some d \<Longrightarrow>
     reachable (st\<lparr>deliverables_df := Some d'\<rparr>)"

section \<open>Example states\<close>

text \<open>The view of Phase 1 in the first run of the script, over the seeded table.\<close>

definition seeded_view :: frame where
  "seeded_view = projr (phase_view initial_resource_df phase1_cols)"

text \<open>
  The analyst pool gets 10 days in July 2025 and 5 days in August 2025: the grid
  that the editor hands back, and the table with these two cells set.
\<close>

definition analyst_edit :: frame where
  "analyst_edit =
     df_set_column
       (df_set_column seeded_view ''Jul '25'' [Num 0, Num 0, Num 0, Num 0, Num 10])
       ''Aug '25'' [Num 0, Num 0, Num 0, Num 0, Num 5]"

definition analyst_table :: frame where
  "analyst_table =
     df_set_column
       (df_set_column initial_resource_df ''Jul '25'' [Num 0, Num 0, Num 0, Num 0, Num 10])
       ''Aug '25'' [Num 0, Num 0, Num 0, Num 0, Num 5]"

text \<open>
  A grid with a negative number in the first row of July 2025, a cleared cell in the
  second row and 4 days in the third, and the table with the two numbers set.
\<close>

definition negative_edit :: frame where
  "negative_edit =
     df_set_column seeded_view ''Jul '25'' [Num (- 3), NaN, Num 4, Num 0, Num 0]"

definition negative_table :: frame where
  "negative_table =
     df_set_column initial_resource_df ''Jul '25'' [Num (- 3), Num 0, Num 4, Num 0, Num 0]"

text \<open>A table in which August and October 2025 both have 10 days, the largest total.\<close>

definition tie_table :: frame where
  "tie_table =
     df_set_column
       (df_set_column initial_resource_df ''Aug '25'' [Num 0, Num 0, Num 0, Num 0, Num 10])
       ''Oct '25'' [Num 5, Num 5, Num 0, Num 0, Num 0]"

text \<open>
  Two times \<open>2^62\<close> days in July 2025: the grid of the editor and the table. The
  arithmetic sum of the column is \<open>2^63\<close>, one more than the largest \<open>int64\<close>
  number.
\<close>

definition overflow_edit :: frame where
  "overflow_edit =
     df_set_column seeded_view ''Jul '25''
       [Num 4611686018427387904, Num 4611686018427387904, Num 0, Num 0, Num 0]"

definition overflow_table :: frame where
  "overflow_table =
     df_set_column initial_resource_df ''Jul '25''
       [Num 4611686018427387904, Num 4611686018427387904, Num 0, Num 0, Num 0]"

text \<open>
  \<open>2^62\<close> and \<open>2^62 - 1\<close> days in July 2025, edited in Phase 1, and then one day
  in July 2026, edited in Phase 2: the two grids and the two tables.
\<close>

definition wrap_edit1 :: frame where
  "wrap_edit1 =
     df_set_column seeded_view ''Jul '25''
       [Num 4611686018427387904, Num 4611686018427387903, Num 0, Num 0, Num 0]"

definition wrap_table1 :: frame where
  "wrap_table1 =
     df_set_column initial_resource_df ''Jul '25''
       [Num 4611686018427387904, Num 4611686018427387903, Num 0, Num 0, Num 0]"

definition wrap_view2 :: frame where
  "wrap_view2 = projr (phase_view wrap_table1 phase2_cols)"

definition wrap_edit2 :: frame where
  "wrap_edit2 = df_set_column wrap_view2 ''Jul '26'' [Num 1, Num 0, Num 0, Num 0, Num 0]"

definition wrap_table :: frame where
  "wrap_table = df_set_column wrap_table1 ''Jul '26'' [Num 1, Num 0, Num 0, Num 0, Num 0]"

text \<open>The session state after the first run, and session states after edits.\<close>

definition seeded_session :: session_state where
  "seeded_session =
     \<lparr>resource_df = Some initial_resource_df, deliverables_df = Some initial_deliverables_df\<rparr>"

text \<open>A session state after edits of both tables.\<close>

definition edited_state :: session_state where
  "edited_state =
     \<lparr>resource_df = Some analyst_table,
      deliverables_df = Some (df_set_column initial_deliverables_df ''Jul '25'' [Str ''Kick-off''])\<rparr>"
section \<open>Properties of the calendar generator\<close>

lemma all_months_returns:
  "get_month_columns 2025 7 25 =
     Inr [''Jul '25'', ''Aug '25'', ''Sep '25'', ''Oct '25'', ''Nov '25'', ''Dec '25'',
          ''Jan '26'', ''Feb '26'', ''Mar '26'', ''Apr '26'', ''May '26'', ''Jun '26'',
          ''Jul '26'', ''Aug '26'', ''Sep '26'', ''Oct '26'', ''Nov '26'', ''Dec '26'',
          ''Jan '27'', ''Feb '27'', ''Mar '27'', ''Apr '27'', ''May '27'', ''Jun '27'',
          ''Jul '27'']"
  by code_simp

lemma all_months_eq:
  "all_months =
     [''Jul '25'', ''Aug '25'', ''Sep '25'', ''Oct '25'', ''Nov '25'', ''Dec '25'',
      ''Jan '26'', ''Feb '26'', ''Mar '26'', ''Apr '26'', ''May '26'', ''Jun '26'',
      ''Jul '26'', ''Aug '26'', ''Sep '26'', ''Oct '26'', ''Nov '26'', ''Dec '26'',
      ''Jan '27'', ''Feb '27'', ''Mar '27'', ''Apr '27'', ''May '27'', ''Jun '27'',
      ''Jul '27'']"
  unfolding all_months_def all_months_returns by simp

lemma phase1_cols_eq:
  "phase1_cols =
     [''Jul '25'', ''Aug '25'', ''Sep '25'', ''Oct '25'', ''Nov '25'', ''Dec '25'',
      ''Jan '26'', ''Feb '26'', ''Mar '26'', ''Apr '26'', ''May '26'', ''Jun '26'']"
  unfolding phase1_cols_def split_phases_def slice_to_def slice_bound_def all_months_eq
  by simp

lemma phase2_cols_eq:
  "phase2_cols =
     [''Jul '26'', ''Aug '26'', ''Sep '26'', ''Oct '26'', ''Nov '26'', ''Dec '26'',
      ''Jan '27'', ''Feb '27'', ''Mar '27'', ''Apr '27'', ''May '27'', ''Jun '27'',
      ''Jul '27'']"
  unfolding phase2_cols_def split_phases_def slice_from_def slice_bound_def all_months_eq
  by simp

lemma div12_rollover:
  "(k::int) mod 12 = 11 \<Longrightarrow> (k + 1) div 12 = k div 12 + 1 \<and> (k + 1) mod 12 = 0"
  by (simp add: div_add1_eq mod_add_eq [symmetric, of k])

lemma div12_step:
  assumes h: "(k::int) mod 12 \<noteq> 11"
  shows "(k + 1) div 12 = k div 12 \<and> (k + 1) mod 12 = k mod 12 + 1"
proof -
  have b: "0 \<le> k mod 12" "k mod 12 < 12" by simp_all
  with h have lt: "k mod 12 + 1 < 12" by linarith
  have "(k + 1) mod 12 = (k mod 12 + 1) mod 12" by (simp add: mod_add_left_eq)
  also have "\<dots> = k mod 12 + 1" using b lt by (intro mod_pos_pos_trivial) auto
  finally have m: "(k + 1) mod 12 = k mod 12 + 1" .
  have "12 * ((k + 1) div 12) + (k + 1) mod 12 = k + 1" by simp
  moreover have "12 * (k div 12) + k mod 12 = k" by simp
  ultimately have "12 * ((k + 1) div 12) = 12 * (k div 12)" using m by linarith
  then show ?thesis using m by simp
qed

lemma next_month_rollover:
  "1 \<le> y + 1 \<Longrightarrow> y + 1 \<le> 9999 \<Longrightarrow>
   next_month \<lparr>year = y, month = 12\<rparr> = Inr \<lparr>year = y + 1, month = 1\<rparr>"
  by (simp add: next_month_def datetime_date_def)

lemma next_month_same_year:
  "1 \<le> y \<Longrightarrow> y \<le> 9999 \<Longrightarrow> 0 \<le> r \<Longrightarrow> r < 11 \<Longrightarrow>
   next_month \<lparr>year = y, month = r + 1\<rparr> = Inr \<lparr>year = y, month = r + 1 + 1\<rparr>"
  by (simp add: next_month_def datetime_date_def)

lemma less_11: "(r::int) < 12 \<Longrightarrow> r \<noteq> 11 \<Longrightarrow> r < 11"
  by simp

lemma next_month_number:
  assumes "12 \<le> k" "k + 1 \<le> 119999"
  shows "next_month (date_of_number k) = Inr (date_of_number (k + 1))"
proof -
  have y1: "1 \<le> k div 12" using assms(1) by simp
  have y2: "(k + 1) div 12 \<le> 9999" using assms(2) by simp
  have b: "0 \<le> k mod 12" "k mod 12 < 12" by simp_all
  show ?thesis
  proof (cases "k mod 12 = 11")
    case True
    from div12_rollover [OF True]
    have e: "(k + 1) div 12 = k div 12 + 1" "(k + 1) mod 12 = 0" by simp_all
    have "1 \<le> k div 12 + 1" using y1 by (rule order_trans) simp
    moreover have "k div 12 + 1 \<le> 9999" using y2 unfolding e .
    ultimately have "next_month \<lparr>year = k div 12, month = 12\<rparr> =
        Inr \<lparr>year = k div 12 + 1, month = 1\<rparr>"
      by (rule next_month_rollover)
    then show ?thesis
      unfolding date_of_number_def e True by simp
  next
    case False
    from div12_step [OF False]
    have e: "(k + 1) div 12 = k div 12" "(k + 1) mod 12 = k mod 12 + 1" by simp_all
    have lt: "k mod 12 < 11" using b(2) False by (rule less_11)
    have "k div 12 \<le> 9999" using y2 unfolding e .
    from next_month_same_year [OF y1 this b(1) lt]
    show ?thesis
      unfolding date_of_number_def e .
  qed
qed

lemma labels_upt_Suc:
  "map (\<lambda>i. f (k + int i)) [0..<Suc n] = f k # map (\<lambda>i. f (k + 1 + int i)) [0..<n]"
proof -
  have "[0..<Suc n] = 0 # map Suc [0..<n]"
    by (simp add: upt_conv_Cons map_Suc_upt del: upt_Suc)
  then show ?thesis by (simp add: o_def ac_simps del: upt_Suc)
qed

lemma month_loop_labels:
  "12 \<le> k \<Longrightarrow> k + int n \<le> 119999 \<Longrightarrow>
   month_loop n (date_of_number k) cols =
     Inr (cols @ map (\<lambda>i. strftime (date_of_number (k + int i))) [0..<n])"
proof (induction n arbitrary: k cols)
  case 0
  then show ?case by simp
next
  case (Suc n)
  have nm: "next_month (date_of_number k) = Inr (date_of_number (k + 1))"
    using Suc.prems by (intro next_month_number) simp_all
  have "month_loop n (date_of_number (k + 1)) (cols @ [strftime (date_of_number k)]) =
        Inr ((cols @ [strftime (date_of_number k)]) @
             map (\<lambda>i. strftime (date_of_number (k + 1 + int i))) [0..<n])"
    using Suc.prems by (intro Suc.IH) simp_all
  then show ?case
    using nm labels_upt_Suc [of "\<lambda>j. strftime (date_of_number j)" k n]
    by (simp del: upt_Suc)
qed

lemma month_loop_overrun:
  "12 \<le> k \<Longrightarrow> k \<le> 119999 \<Longrightarrow> 119999 < k + int n \<Longrightarrow>
   month_loop n (date_of_number k) cols = Inl ValueError"
proof (induction n arbitrary: k cols)
  case 0
  then show ?case by simp
next
  case (Suc n)
  show ?case
  proof (cases "k = 119999")
    case True
    have "next_month (date_of_number 119999) = Inl ValueError"
      by (simp add: next_month_def date_of_number_def datetime_date_def)
    then show ?thesis using True by simp
  next
    case False
    then have nm: "next_month (date_of_number k) = Inr (date_of_number (k + 1))"
      using Suc.prems by (intro next_month_number) simp_all
    have "month_loop n (date_of_number (k + 1)) (cols @ [strftime (date_of_number k)]) =
          Inl ValueError"
      using Suc.prems False by (intro Suc.IH) simp_all
    then show ?thesis using nm by simp
  qed
qed

lemma date_of_month_number:
  assumes "1 \<le> m" "m \<le> 12"
  shows "date_of_number (month_number y m) = \<lparr>year = y, month = m\<rparr>"
proof -
  have "(12 * y + (m - 1)) div 12 = y" using assms by (simp add: div_pos_pos_trivial)
  moreover have "(12 * y + (m - 1)) mod 12 = m - 1" using assms by (simp add: mod_pos_pos_trivial)
  ultimately show ?thesis by (simp add: date_of_number_def month_number_def)
qed

lemma month_abbr_length:
  assumes "1 \<le> m" "m \<le> 12"
  shows "length (month_abbr m) = 3"
proof -
  have "\<forall>s\<in>set month_names. length s = 3" by (simp add: month_names_def)
  moreover have "nat (m - 1) < length month_names" using assms by (simp add: month_names_def)
  ultimately show ?thesis unfolding month_abbr_def by (metis nth_mem)
qed

lemma month_abbr_inj:
  assumes "1 \<le> m" "m \<le> 12" "1 \<le> m'" "m' \<le> 12"
  shows "month_abbr m = month_abbr m' \<longleftrightarrow> m = m'"
proof -
  have d: "distinct month_names" by (simp add: month_names_def)
  have l: "nat (m - 1) < length month_names" "nat (m' - 1) < length month_names"
    using assms by (simp_all add: month_names_def)
  have "month_abbr m = month_abbr m' \<longleftrightarrow> nat (m - 1) = nat (m' - 1)"
    unfolding month_abbr_def using nth_eq_iff_index_eq [OF d l] .
  then show ?thesis using assms by auto
qed

lemma digit_inj:
  assumes "0 \<le> a" "a < 10" "0 \<le> b" "b < 10"
  shows "digit a = digit b \<longleftrightarrow> a = b"
proof -
  have d: "distinct ''0123456789''" by simp
  have l: "nat a < length ''0123456789''" "nat b < length ''0123456789''"
    using assms by simp_all
  have "digit a = digit b \<longleftrightarrow> nat a = nat b"
    unfolding digit_def using nth_eq_iff_index_eq [OF d l] .
  then show ?thesis using assms by auto
qed

lemma two_digits_inj:
  assumes "0 \<le> a" "a < 100" "0 \<le> b" "b < 100"
  shows "two_digits a = two_digits b \<longleftrightarrow> a = b"
proof -
  have qa: "0 \<le> a div 10" "a div 10 < 10" using assms by simp_all
  have qb: "0 \<le> b div 10" "b div 10 < 10" using assms by simp_all
  have ra: "0 \<le> a mod 10" "a mod 10 < 10" by simp_all
  have rb: "0 \<le> b mod 10" "b mod 10 < 10" by simp_all
  have "two_digits a = two_digits b \<longleftrightarrow> a div 10 = b div 10 \<and> a mod 10 = b mod 10"
    unfolding two_digits_def
    using digit_inj [OF qa qb] digit_inj [OF ra rb] by simp
  also have "\<dots> \<longleftrightarrow> a = b"
  proof
    assume h: "a div 10 = b div 10 \<and> a mod 10 = b mod 10"
    have "a = 10 * (a div 10) + a mod 10" by simp
    also have "\<dots> = 10 * (b div 10) + b mod 10" using h by simp
    also have "\<dots> = b" by simp
    finally show "a = b" .
  qed simp
  finally show ?thesis .
qed

lemma strftime_eq_iff:
  assumes "1 \<le> m" "m \<le> 12" "1 \<le> m'" "m' \<le> 12"
  shows "strftime \<lparr>year = y, month = m\<rparr> = strftime \<lparr>year = y', month = m'\<rparr> \<longleftrightarrow>
         m = m' \<and> y mod 100 = y' mod 100"
proof -
  have ya: "0 \<le> y mod 100" "y mod 100 < 100" by simp_all
  have yb: "0 \<le> y' mod 100" "y' mod 100 < 100" by simp_all
  have len: "length (month_abbr m) = length (month_abbr m')"
    using month_abbr_length [OF assms(1,2)] month_abbr_length [OF assms(3,4)] by simp
  have "strftime \<lparr>year = y, month = m\<rparr> = strftime \<lparr>year = y', month = m'\<rparr> \<longleftrightarrow>
        month_abbr m = month_abbr m' \<and> two_digits (y mod 100) = two_digits (y' mod 100)"
    unfolding strftime_def using len by simp
  then show ?thesis
    unfolding month_abbr_inj [OF assms] two_digits_inj [OF ya yb] .
qed

lemma mod_1200_split:
  "(a::int) mod 1200 = 12 * (a div 12 mod 100) + a mod 12"
  using zmod_zmult2_eq [of 100 a 12] by simp

lemma cancel_12:
  "(12::int) * p + r = 12 * q + r' \<Longrightarrow> r = r' \<Longrightarrow> p = q"
  by simp

lemma mod_1200_eq_iff:
  "(a::int) mod 1200 = b mod 1200 \<longleftrightarrow> a mod 12 = b mod 12 \<and> a div 12 mod 100 = b div 12 mod 100"
proof
  assume h: "a mod 1200 = b mod 1200"
  have "a mod 1200 mod 12 = a mod 12" "b mod 1200 mod 12 = b mod 12"
    by (simp_all add: mod_mod_cancel)
  then have m: "a mod 12 = b mod 12" by (metis h)
  have "12 * (a div 12 mod 100) + a mod 12 = 12 * (b div 12 mod 100) + b mod 12"
    using h unfolding mod_1200_split .
  from cancel_12 [OF this m] m
  show "a mod 12 = b mod 12 \<and> a div 12 mod 100 = b div 12 mod 100" by (rule conjI [rotated])
next
  assume "a mod 12 = b mod 12 \<and> a div 12 mod 100 = b div 12 mod 100"
  then show "a mod 1200 = b mod 1200" unfolding mod_1200_split by (elim conjE) (simp only:)
qed

lemma strftime_inj:
  "strftime (date_of_number a) = strftime (date_of_number b) \<longleftrightarrow> a mod 1200 = b mod 1200"
proof -
  have ma: "1 \<le> a mod 12 + 1" "a mod 12 + 1 \<le> 12" by simp_all
  have mb: "1 \<le> b mod 12 + 1" "b mod 12 + 1 \<le> 12" by simp_all
  show ?thesis
    unfolding date_of_number_def strftime_eq_iff [OF ma mb] mod_1200_eq_iff by simp
qed

lemma get_month_columns_returns:
  assumes "1 \<le> start_year" "1 \<le> start_month" "start_month \<le> 12" "0 \<le> months_count"
    and "month_number start_year start_month + months_count \<le> 119999"
  shows "get_month_columns start_year start_month months_count =
         Inr (map (\<lambda>i. strftime (date_of_number (month_number start_year start_month + int i)))
                [0..<nat months_count])"
proof -
  let ?k = "month_number start_year start_month"
  have k12: "12 \<le> ?k" using assms(1,2) by (simp add: month_number_def)
  have kn: "?k + int (nat months_count) \<le> 119999"
    using assms(4,5) by simp
  have y: "start_year \<le> 9999" using assms(2,4,5) by (simp add: month_number_def)
  have "datetime_date start_year start_month = Inr (date_of_number ?k)"
    using assms(1,2,3) y by (simp add: datetime_date_def date_of_month_number)
  then show ?thesis
    unfolding get_month_columns_def using month_loop_labels [OF k12 kn, of "[]"] by simp
qed

lemma small_multiple_zero:
  assumes "(d::int) = 1200 * q" "- 1200 < d" "d < 1200"
  shows "d = 0"
proof -
  have "(1200::int) * q < 1200 * 1" using assms(1,3) by simp
  then have "q < 1" by (rule mult_left_less_imp_less) simp
  have "(1200::int) * (- 1) < 1200 * q" using assms(1,2) by simp
  then have "- 1 < q" by (rule mult_left_less_imp_less) simp
  with \<open>q < 1\<close> have "q = 0" by simp
  then show ?thesis using assms(1) by simp
qed

lemma mod_1200_nat_inj:
  assumes "(k + int i) mod 1200 = (k + int j) mod 1200" "i < 1200" "j < 1200"
  shows "i = j"
proof -
  have "(1200::int) dvd (k + int i) - (k + int j)"
    using assms(1) by (simp only: mod_eq_dvd_iff)
  then have "(1200::int) dvd int i - int j" by (simp only: add_diff_cancel_left)
  then obtain q where q: "int i - int j = 1200 * q" by (rule dvdE)
  have "- 1200 < int i - int j" "int i - int j < 1200" using assms(2,3) by simp_all
  from small_multiple_zero [OF q this] show ?thesis by simp
qed

lemma labels_distinct_iff:
  "distinct (map (\<lambda>i. strftime (date_of_number (k + int i))) [0..<n]) \<longleftrightarrow> n \<le> 1200"
proof
  assume d: "distinct (map (\<lambda>i. strftime (date_of_number (k + int i))) [0..<n])"
  show "n \<le> 1200"
  proof (rule ccontr)
    assume "\<not> n \<le> 1200"
    then have n: "0 < n" "1200 < n" by simp_all
    have "inj_on (\<lambda>i. strftime (date_of_number (k + int i))) {0..<n}"
      using d by (simp add: distinct_map)
    moreover have "strftime (date_of_number (k + int 0)) = strftime (date_of_number (k + int 1200))"
      unfolding strftime_inj by simp
    ultimately have "(0::nat) = 1200" using n by (auto dest!: inj_onD [where x = 0 and y = 1200])
    then show False by simp
  qed
next
  assume n: "n \<le> 1200"
  have "inj_on (\<lambda>i. strftime (date_of_number (k + int i))) {0..<n}"
  proof (rule inj_onI)
    fix i j assume "i \<in> {0..<n}" "j \<in> {0..<n}"
      and e: "strftime (date_of_number (k + int i)) = strftime (date_of_number (k + int j))"
    then have "i < 1200" "j < 1200" using n by simp_all
    moreover from e have "(k + int i) mod 1200 = (k + int j) mod 1200" unfolding strftime_inj .
    ultimately show "i = j" by (intro mod_1200_nat_inj)
  qed
  then show "distinct (map (\<lambda>i. strftime (date_of_number (k + int i))) [0..<n])"
    by (simp add: distinct_map)
qed

subsection \<open>Claim C4: the generated labels\<close>

text \<open>
  C4 (as amended). For a start year from 1 on, a start month from 1 to 12 and a
  count above 0 such that the month after the last generated one is not later than
  December 9999, \<open>get_month_columns\<close> returns exactly \<open>count\<close> labels, and label
  \<open>i\<close> is the \<open>"%b '%y"\<close> label of the calendar month \<open>i\<close> months after the start
  month: consecutive labels denote consecutive calendar months, across the turn of a
  year as well. The labels are pairwise distinct exactly when the count is at most
  1200, because a label carries the year without its century.
\<close>
theorem get_month_columns_consecutive:
  assumes "1 \<le> start_year" "1 \<le> start_month" "start_month \<le> 12" "0 < months_count"
    and "month_number start_year start_month + months_count \<le> month_number 9999 12"
  shows "\<exists>cols. get_month_columns start_year start_month months_count = Inr cols \<and>
           length cols = nat months_count \<and>
           (\<forall>i<nat months_count.
              cols ! i = strftime (date_of_number (month_number start_year start_month + int i))) \<and>
           (distinct cols \<longleftrightarrow> months_count \<le> 1200)"
proof -
  let ?f = "\<lambda>i. strftime (date_of_number (month_number start_year start_month + int i))"
  have c: "0 \<le> months_count" using assms(4) by simp
  have b: "month_number start_year start_month + months_count \<le> 119999"
    using assms(5) by (simp add: month_number_def)
  have r: "get_month_columns start_year start_month months_count = Inr (map ?f [0..<nat months_count])"
    using assms(1,2,3) c b by (rule get_month_columns_returns)
  have d: "distinct (map ?f [0..<nat months_count]) \<longleftrightarrow> months_count \<le> 1200"
    unfolding labels_distinct_iff using c by (simp add: nat_le_iff)
  show ?thesis unfolding r using d by simp
qed

text \<open>
  The horizon of the script, 25 months from July 2025: the sixth label is December
  2025, the seventh January 2026.
\<close>
theorem get_month_columns_consecutive_witness:
  "\<exists>cols. get_month_columns 2025 7 25 = Inr cols \<and> length cols = 25 \<and>
     cols ! 5 = strftime (date_of_number (month_number 2025 7 + 5)) \<and>
     cols ! 6 = strftime (date_of_number (month_number 2025 7 + 6)) \<and> distinct cols"
proof -
  have h: "(1::int) \<le> 2025" "(1::int) \<le> 7" "(7::int) \<le> 12" "(0::int) < 25"
    "month_number 2025 7 + 25 \<le> month_number 9999 12"
    by (simp_all add: month_number_def)
  from get_month_columns_consecutive [OF h] obtain cols where
    c: "get_month_columns 2025 7 25 = Inr cols" "length cols = nat 25"
       "\<forall>i<nat 25. cols ! i = strftime (date_of_number (month_number 2025 7 + int i))"
       "distinct cols \<longleftrightarrow> (25::int) \<le> 1200"
    by blast
  have "cols ! 5 = strftime (date_of_number (month_number 2025 7 + int 5))"
    using c(3) by simp
  moreover have "cols ! 6 = strftime (date_of_number (month_number 2025 7 + int 6))"
    using c(3) by simp
  ultimately show ?thesis using c(1,2,4) by simp
qed

text \<open>
  C4 as stated fails for a year that \<open>datetime.date\<close> does not have, and for 1201
  months from July 2025: the first label and the last (July 2125) are the same.
\<close>
theorem get_month_columns_counterexample:
  "get_month_columns 10000 1 1 = Inl ValueError \<and>
   \<not> isl (get_month_columns 2025 7 1201) \<and>
   length (projr (get_month_columns 2025 7 1201)) = 1201 \<and>
   projr (get_month_columns 2025 7 1201) ! 0 = ''Jul '25'' \<and>
   projr (get_month_columns 2025 7 1201) ! 1200 = ''Jul '25'' \<and>
   \<not> distinct (projr (get_month_columns 2025 7 1201))"
proof -
  let ?f = "\<lambda>i. strftime (date_of_number (month_number 2025 7 + int i))"
  have a: "get_month_columns 10000 1 1 = Inl ValueError"
    by (simp add: get_month_columns_def datetime_date_def)
  have r: "get_month_columns 2025 7 1201 = Inr (map ?f [0..<nat 1201])"
    by (rule get_month_columns_returns) (simp_all add: month_number_def)
  have f0: "?f 0 = ''Jul '25''"
    by (simp add: month_number_def date_of_number_def strftime_def month_abbr_def
        month_names_def two_digits_def digit_def)
  have f1200: "?f 1200 = ''Jul '25''"
    by (simp add: month_number_def date_of_number_def strftime_def month_abbr_def
        month_names_def two_digits_def digit_def)
  have nd: "\<not> distinct (map ?f [0..<nat 1201])"
    unfolding labels_distinct_iff by simp
  have n0: "map ?f [0..<nat 1201] ! 0 = ?f 0" by (subst nth_map) simp_all
  have n1200: "map ?f [0..<nat 1201] ! 1200 = ?f 1200" by (subst nth_map) simp_all
  show ?thesis
    unfolding r sum.sel using a nd f0 f1200 n0 n1200 by simp
qed

subsection \<open>Claim C6: the split into phases\<close>

text \<open>
  C6. For a month sequence that \<open>get_month_columns\<close> returns and a split point
  \<open>k\<close> with \<open>0 < k < length months\<close>, the two phases concatenate to the sequence
  and the first phase has \<open>k\<close> months.
\<close>
theorem split_phases_concat:
  assumes "get_month_columns start_year start_month months_count = Inr months"
    and "0 < k" "k < int (length months)"
  shows "fst (split_phases months k) @ snd (split_phases months k) = months \<and>
         length (fst (split_phases months k)) = nat k"
  using assms(2,3)
  by (simp add: split_phases_def slice_to_def slice_from_def slice_bound_def)

text \<open>The split of the script: the horizon at 12.\<close>
theorem split_phases_concat_witness:
  "phase1_cols @ phase2_cols = all_months \<and> length phase1_cols = 12"
proof -
  have m: "get_month_columns 2025 7 25 = Inr all_months"
    unfolding all_months_returns all_months_eq ..
  have k: "(0::int) < 12" "(12::int) < int (length all_months)"
    by (simp_all add: all_months_eq)
  from split_phases_concat [OF m k] show ?thesis
    unfolding phase1_cols_def phase2_cols_def by simp
qed

section \<open>Properties of the frame operations\<close>

lemma map_of_set_item:
  "map_of (set_item d k v) = (map_of d)(k \<mapsto> v)"
  by (induction d k v rule: set_item.induct) auto


lemma sum_cells_numeric:
  "\<forall>x\<in>set xs. \<not> is_text x \<Longrightarrow> sum_cells xs = Inr (sum_list (map cell_word xs))"
proof (induction xs)
  case Nil
  then show ?case by simp
next
  case (Cons x xs)
  then have "sum_cells xs = Inr (sum_list (map cell_word xs))" by simp
  moreover have "cell_value x = Inr (cell_word x)"
    using Cons.prems by (cases x) (simp_all add: cell_word_def)
  ultimately show ?case by simp
qed

lemma collect_all_Inr:
  "\<forall>x\<in>set xs. g x = Inr (f x) \<Longrightarrow> collect (map g xs) = Inr (map f xs)"
  by (induction xs) simp_all

lemma sum_list_nth_upt:
  "sum_list (map (\<lambda>i. f (xs ! i)) [0..<length xs]) = sum_list (map f xs)"
proof -
  have "map (\<lambda>i. f (xs ! i)) [0..<length xs] = map f (map ((!) xs) [0..<length xs])"
    by (simp add: o_def)
  then show ?thesis by (simp only: map_nth)
qed

lemma sum_list_swap:
  fixes f :: "'a \<Rightarrow> 'b \<Rightarrow> 'c::comm_monoid_add"
  shows "sum_list (map (\<lambda>i. sum_list (map (\<lambda>c. f c i) cs)) js) =
   sum_list (map (\<lambda>c. sum_list (map (\<lambda>i. f c i) js)) cs)"
proof (induction cs)
  case Nil
  then show ?case by simp
next
  case (Cons a cs)
  have "sum_list (map (\<lambda>i. sum_list (map (\<lambda>c. f c i) (a # cs))) js) =
        sum_list (map (\<lambda>i. f a i + sum_list (map (\<lambda>c. f c i) cs)) js)"
    by simp
  also have "\<dots> = sum_list (map (\<lambda>i. f a i) js) +
        sum_list (map (\<lambda>i. sum_list (map (\<lambda>c. f c i) cs)) js)"
    by (rule sum_list_addf)
  finally show ?case using Cons.IH by simp
qed





lemma map_of_select:
  "map_of (map (\<lambda>c. (c, g c)) cols) c = (if c \<in> set cols then Some (g c) else None)"
  by (induction cols) auto

lemma df_select_ok:
  "has_columns df cols \<Longrightarrow>
   df_select df cols =
     Inr \<lparr>df_index = df_index df,
          df_columns = map (\<lambda>c. (c, the (map_of (df_columns df) c))) cols\<rparr>"
  by (simp add: df_select_def)

lemma df_select_fails:
  "\<not> has_columns df cols \<Longrightarrow> df_select df cols = Inl KeyError"
  by (simp add: df_select_def)

lemma map_of_update_columns:
  "map_of (map (update_column self other) cs) c =
     (case map_of cs c of
        None \<Rightarrow> None
      | Some this \<Rightarrow> Some (snd (update_column self other (c, this))))"
proof (induction cs)
  case Nil
  then show ?case by simp
next
  case (Cons col cs)
  have f: "fst (update_column self other col) = fst col"
    by (simp add: update_column_def split: option.splits)
  obtain a b where col: "col = (a, b)" by (cases col)
  show ?case
  proof (cases "a = c")
    case True
    have "map_of (update_column self other col # map (update_column self other) cs) c =
          Some (snd (update_column self other col))"
      using f True col by (cases "update_column self other col") simp
    then show ?thesis using True col by simp
  next
    case False
    have "map_of (update_column self other col # map (update_column self other) cs) c =
          map_of (map (update_column self other) cs) c"
      using f False col by (cases "update_column self other col") simp
    then show ?thesis using False col Cons.IH by simp
  qed
qed

lemma fst_update_columns:
  "map fst (map (update_column self other) cs) = map fst cs"
  by (induction cs) (simp_all add: update_column_def split: option.splits)

section \<open>Tables of the session's shape\<close>

lemma shape_month_column:
  assumes "table_shape t" "c \<in> set all_months"
  obtains xs where "map_of (df_columns t) c = Some xs" "length xs = 5"
    "\<forall>x\<in>set xs. \<not> is_text x"
proof -
  have "c \<in> set (map fst (df_columns t))" using assms by (simp add: table_shape_def)
  then have "map_of (df_columns t) c \<noteq> None" by (simp add: map_of_eq_None_iff)
  then obtain xs where xs: "map_of (df_columns t) c = Some xs" by auto
  then have m: "(c, xs) \<in> set (df_columns t)" by (rule map_of_SomeD)
  have "\<forall>col\<in>set (df_columns t). length (snd col) = 5 \<and>
          (fst col \<in> set all_months \<longrightarrow> (\<forall>x\<in>set (snd col). \<not> is_text x))"
    using assms(1) by (simp add: table_shape_def)
  with m assms(2) have "length xs = 5" "\<forall>x\<in>set xs. \<not> is_text x" by auto
  with xs that show thesis by blast
qed

lemma shape_has_columns:
  assumes "table_shape t" "set cs \<subseteq> set ([''Resource'', ''Role'', ''Grade''] @ all_months)"
  shows "has_columns t cs"
proof -
  have "map fst (df_columns t) = [''Resource'', ''Role'', ''Grade''] @ all_months"
    using assms(1) by (simp add: table_shape_def)
  then have "\<forall>c\<in>set cs. c \<in> set (map fst (df_columns t))" using assms(2) by auto
  then show ?thesis unfolding has_columns_def by (simp add: map_of_eq_None_iff)
qed

lemma phase_total_not_month: "''Phase Total'' \<notin> set all_months"
  unfolding all_months_eq by simp

lemma phases_disjoint: "set phase1_cols \<inter> set phase2_cols = {}"
  unfolding phase1_cols_eq phase2_cols_eq by simp

lemma all_months_split: "all_months = phase1_cols @ phase2_cols"
  unfolding all_months_eq phase1_cols_eq phase2_cols_eq by simp

lemma all_months_distinct: "distinct all_months"
  unfolding all_months_eq by simp

lemma column_sum_numeric:
  assumes "\<forall>x\<in>set xs. \<not> is_text x"
  shows "column_sum (c, xs) = Inr (c, sum_list (map cell_word xs))"
  using sum_cells_numeric [OF assms] by (simp add: column_sum_def)

lemma month_totals_ok:
  assumes "table_shape t" "set cols \<subseteq> set all_months"
  shows "month_totals t cols =
     Inr (map (\<lambda>c. (c, sum_list (map cell_word (the (map_of (df_columns t) c))))) cols)"
proof -
  let ?col = "\<lambda>c. the (map_of (df_columns t) c)"
  have h: "has_columns t cols" using assms by (intro shape_has_columns) auto
  have "\<forall>c\<in>set cols. column_sum (c, ?col c) = Inr (c, sum_list (map cell_word (?col c)))"
  proof
    fix c assume "c \<in> set cols"
    then have "c \<in> set all_months" using assms(2) by auto
    with assms(1) obtain xs where "map_of (df_columns t) c = Some xs"
      "\<forall>x\<in>set xs. \<not> is_text x" by (rule shape_month_column)
    then show "column_sum (c, ?col c) = Inr (c, sum_list (map cell_word (?col c)))"
      by (simp add: column_sum_numeric)
  qed
  then have "collect (map (\<lambda>c. column_sum (c, ?col c)) cols) =
        Inr (map (\<lambda>c. (c, sum_list (map cell_word (?col c)))) cols)"
    by (rule collect_all_Inr)
  then show ?thesis
    unfolding month_totals_def df_select_ok [OF h] by (simp add: df_sum_def o_def)
qed

lemma row_sums_ok:
  assumes "table_shape t" "set cols \<subseteq> set all_months"
  shows "df_sum_axis1 \<lparr>df_index = df_index t,
           df_columns = map (\<lambda>c. (c, the (map_of (df_columns t) c))) cols\<rparr> =
     Inr (map (\<lambda>i. sum_list (map (\<lambda>c. cell_word (the (map_of (df_columns t) c) ! i)) cols))
            [0..<5])"
proof -
  let ?col = "\<lambda>c. the (map_of (df_columns t) c)"
  let ?m = "\<lparr>df_index = df_index t, df_columns = map (\<lambda>c. (c, ?col c)) cols\<rparr>"
  have len: "length (df_index t) = 5" using assms(1) by (simp add: table_shape_def)
  have "\<forall>i\<in>set [0..<5]. sum_cells (df_row ?m i) =
          Inr (sum_list (map (\<lambda>c. cell_word (?col c ! i)) cols))"
  proof
    fix i :: nat assume "i \<in> set [0..<5]"
    then have i: "i < 5" by simp
    have "\<forall>x\<in>set (df_row ?m i). \<not> is_text x"
    proof
      fix x assume "x \<in> set (df_row ?m i)"
      then obtain c where c: "c \<in> set cols" "x = ?col c ! i"
        by (auto simp add: df_row_def)
      then have "c \<in> set all_months" using assms(2) by auto
      with assms(1) obtain xs where xs: "map_of (df_columns t) c = Some xs" "length xs = 5"
        "\<forall>x\<in>set xs. \<not> is_text x" by (rule shape_month_column)
      then have "xs ! i \<in> set xs" using i by simp
      then show "\<not> is_text x" using xs c by simp
    qed
    then have "sum_cells (df_row ?m i) = Inr (sum_list (map cell_word (df_row ?m i)))"
      by (rule sum_cells_numeric)
    then show "sum_cells (df_row ?m i) = Inr (sum_list (map (\<lambda>c. cell_word (?col c ! i)) cols))"
      by (simp add: df_row_def o_def)
  qed
  then have "collect (map (\<lambda>i. sum_cells (df_row ?m i)) [0..<5]) =
        Inr (map (\<lambda>i. sum_list (map (\<lambda>c. cell_word (?col c ! i)) cols)) [0..<5])"
    by (rule collect_all_Inr)
  then show ?thesis unfolding df_sum_axis1_def using len by simp
qed

lemma phase_view_ok:
  assumes "table_shape t" "set cols \<subseteq> set all_months"
  shows "phase_view t cols =
     Inr \<lparr>df_index = df_index t,
          df_columns =
            set_item (map (\<lambda>c. (c, the (map_of (df_columns t) c))) (''Resource'' # ''Role'' # cols))
              ''Phase Total''
              (map (\<lambda>w. Num (sint w)) (map (\<lambda>i. sum_list (map (\<lambda>c. cell_word (the (map_of (df_columns t) c) ! i)) cols))
                 [0..<5]))\<rparr>"
proof -
  let ?col = "\<lambda>c. the (map_of (df_columns t) c)"
  let ?view = "\<lparr>df_index = df_index t,
                 df_columns = map (\<lambda>c. (c, ?col c)) (''Resource'' # ''Role'' # cols)\<rparr>"
  have h1: "has_columns t ([''Resource'', ''Role''] @ cols)"
    using assms by (intro shape_has_columns) auto
  have s1: "df_select t ([''Resource'', ''Role''] @ cols) = Inr ?view"
    unfolding df_select_ok [OF h1] by simp
  have m: "\<forall>c\<in>set cols. map_of (df_columns ?view) c = Some (?col c)"
    by (simp only: frame.simps map_of_select) simp
  then have h2: "has_columns ?view cols" unfolding has_columns_def by simp
  have "map (\<lambda>c. (c, the (map_of (df_columns ?view) c))) cols = map (\<lambda>c. (c, ?col c)) cols"
    using m by (intro map_cong) simp_all
  then have s2: "df_select ?view cols =
      Inr \<lparr>df_index = df_index t, df_columns = map (\<lambda>c. (c, ?col c)) cols\<rparr>"
    unfolding df_select_ok [OF h2] by simp
  show ?thesis
    unfolding phase_view_def s1 sum.case s2 row_sums_ok [OF assms]
    by (simp add: df_set_column_def)
qed

section \<open>Aggregation\<close>

lemma sum_cells_Num: "sum_cells (map (\<lambda>w. Num (sint w)) rows) = Inr (sum_list rows)"
proof -
  have "\<forall>x\<in>set (map (\<lambda>w. Num (sint w)) rows). \<not> is_text x" by auto
  then have "sum_cells (map (\<lambda>w. Num (sint w)) rows) =
      Inr (sum_list (map cell_word (map (\<lambda>w. Num (sint w)) rows)))"
    by (rule sum_cells_numeric)
  moreover have "map cell_word (map (\<lambda>w. Num (sint w)) rows) = rows"
    by (induction rows) (simp_all add: cell_word_def)
  ultimately show ?thesis by simp
qed

lemma series_sum_totals:
  "series_sum (map (\<lambda>c. (c, f c)) cols) = sum_list (map f cols)"
  by (simp add: series_sum_def o_def)

lemma column_sums_by_rows:
  assumes "table_shape t" "set cols \<subseteq> set all_months"
  shows "sum_list (map (\<lambda>i. sum_list (map (\<lambda>c. cell_word (the (map_of (df_columns t) c) ! i)) cols))
           [0..<5]) =
         sum_list (map (\<lambda>c. sum_list (map cell_word (the (map_of (df_columns t) c)))) cols)"
proof -
  let ?col = "\<lambda>c. the (map_of (df_columns t) c)"
  have "sum_list (map (\<lambda>i. sum_list (map (\<lambda>c. cell_word (?col c ! i)) cols)) [0..<5]) =
        sum_list (map (\<lambda>c. sum_list (map (\<lambda>i. cell_word (?col c ! i)) [0..<5])) cols)"
    by (rule sum_list_swap)
  also have "map (\<lambda>c. sum_list (map (\<lambda>i. cell_word (?col c ! i)) [0..<5])) cols =
        map (\<lambda>c. sum_list (map cell_word (?col c))) cols"
  proof (rule map_cong [OF refl])
    fix c assume "c \<in> set cols"
    then have "c \<in> set all_months" using assms(2) by auto
    with assms(1) obtain xs where xs: "map_of (df_columns t) c = Some xs" "length xs = 5"
      by (rule shape_month_column)
    have "sum_list (map (\<lambda>i. cell_word (xs ! i)) [0..<length xs]) = sum_list (map cell_word xs)"
      by (rule sum_list_nth_upt)
    then show "sum_list (map (\<lambda>i. cell_word (?col c ! i)) [0..<5]) =
        sum_list (map cell_word (?col c))"
      using xs by simp
  qed
  finally show ?thesis .
qed

lemma all_cells_sum:
  assumes "table_shape t" "set cols \<subseteq> set all_months"
  shows "sum_cells (all_cells \<lparr>df_index = df_index t,
           df_columns = map (\<lambda>c. (c, the (map_of (df_columns t) c))) cols\<rparr>) =
         Inr (sum_list (map (\<lambda>c. sum_list (map cell_word (the (map_of (df_columns t) c)))) cols))"
proof -
  let ?col = "\<lambda>c. the (map_of (df_columns t) c)"
  have a: "all_cells \<lparr>df_index = df_index t, df_columns = map (\<lambda>c. (c, ?col c)) cols\<rparr> =
        concat (map ?col cols)"
    by (simp add: all_cells_def o_def)
  have "\<forall>x\<in>set (concat (map ?col cols)). \<not> is_text x"
  proof
    fix x assume "x \<in> set (concat (map ?col cols))"
    then obtain c where c: "c \<in> set cols" "x \<in> set (?col c)" by auto
    then have "c \<in> set all_months" using assms(2) by auto
    with assms(1) obtain xs where "map_of (df_columns t) c = Some xs"
      "\<forall>x\<in>set xs. \<not> is_text x" by (rule shape_month_column)
    with c(2) show "\<not> is_text x" by simp
  qed
  then have "sum_cells (concat (map ?col cols)) =
        Inr (sum_list (map cell_word (concat (map ?col cols))))"
    by (rule sum_cells_numeric)
  also have "sum_list (map cell_word (concat (map ?col cols))) =
        sum_list (map (\<lambda>c. sum_list (map cell_word (?col c))) cols)"
    by (induction cols) simp_all
  finally show ?thesis unfolding a .
qed

text \<open>
  C7. For a table of the session's shape with \<open>int64\<close> month columns and a list
  of distinct months of the horizon, the three computations give the same
  \<open>int64\<close> number: the sum of the per-month totals, the sum of all cells of the
  table restricted to these months, and the sum of the "Phase Total" column of the
  view. The sums are the 64-bit sums of pandas, so the equalities hold also where a
  sum wraps around.
\<close>

theorem phase_total_agrees:
  assumes "table_shape t" "int64_table t" "set cols \<subseteq> set all_months" "distinct cols"
  shows "\<exists>totals df_view sel phase_total.
           month_totals t cols = Inr totals \<and>
           phase_view t cols = Inr df_view \<and>
           df_select t cols = Inr sel \<and>
           map_of (df_columns df_view) ''Phase Total'' = Some phase_total \<and>
           sum_cells (all_cells sel) = Inr (series_sum totals) \<and>
           sum_cells phase_total = Inr (series_sum totals)"
proof -
  let ?col = "\<lambda>c. the (map_of (df_columns t) c)"
  let ?rows = "map (\<lambda>i. sum_list (map (\<lambda>c. cell_word (?col c ! i)) cols)) [0..<5]"
  let ?totals = "map (\<lambda>c. (c, sum_list (map cell_word (?col c)))) cols"
  have h: "has_columns t cols" using assms(1,3) by (intro shape_has_columns) auto
  have s: "series_sum ?totals = sum_list (map (\<lambda>c. sum_list (map cell_word (?col c))) cols)"
    by (rule series_sum_totals)
  have 1: "month_totals t cols = Inr ?totals" using assms(1,3) by (rule month_totals_ok)
  note 2 = phase_view_ok [OF assms(1,3)]
  note 3 = df_select_ok [OF h]
  have 4: "map_of (set_item (map (\<lambda>c. (c, ?col c)) (''Resource'' # ''Role'' # cols))
              ''Phase Total'' (map (\<lambda>w. Num (sint w)) ?rows)) ''Phase Total'' = Some (map (\<lambda>w. Num (sint w)) ?rows)"
    by (simp only: map_of_set_item fun_upd_same)
  have 5: "sum_cells (all_cells \<lparr>df_index = df_index t, df_columns = map (\<lambda>c. (c, ?col c)) cols\<rparr>) =
        Inr (series_sum ?totals)"
    unfolding s using assms(1,3) by (rule all_cells_sum)
  have 6: "sum_cells (map (\<lambda>w. Num (sint w)) ?rows) = Inr (series_sum ?totals)"
    unfolding s sum_cells_Num column_sums_by_rows [OF assms(1,3)] ..
  show ?thesis
    unfolding 1 2 3 using 4 5 6 by simp
qed

lemma first_max_split:
  "\<exists>ys zs. best # xs = ys @ first_max best xs # zs \<and>
           (\<forall>y\<in>set ys. sint (snd y) < sint (snd (first_max best xs))) \<and>
           (\<forall>z\<in>set zs. sint (snd z) \<le> sint (snd (first_max best xs)))"
proof (induction xs arbitrary: best)
  case Nil
  show ?case by (intro exI [of _ "[]"]) simp
next
  case (Cons x xs)
  show ?case
  proof (cases "sint (snd best) < sint (snd x)")
    case True
    from Cons.IH [of x] obtain ys zs where
      d: "x # xs = ys @ first_max x xs # zs"
      and lt: "\<forall>y\<in>set ys. sint (snd y) < sint (snd (first_max x xs))"
      and le: "\<forall>z\<in>set zs. sint (snd z) \<le> sint (snd (first_max x xs))" by blast
    have "x \<in> set (ys @ first_max x xs # zs)" using d by (metis list.set_intros(1))
    then have "sint (snd x) \<le> sint (snd (first_max x xs))" using lt le by auto
    with True have b: "sint (snd best) < sint (snd (first_max x xs))" by simp
    have "best # x # xs = (best # ys) @ first_max x xs # zs" using d by simp
    moreover have "\<forall>y\<in>set (best # ys). sint (snd y) < sint (snd (first_max x xs))" using b lt by simp
    ultimately show ?thesis using True le by (simp only: first_max.simps if_True) blast
  next
    case False
    from Cons.IH [of best] obtain ys zs where
      d: "best # xs = ys @ first_max best xs # zs"
      and lt: "\<forall>y\<in>set ys. sint (snd y) < sint (snd (first_max best xs))"
      and le: "\<forall>z\<in>set zs. sint (snd z) \<le> sint (snd (first_max best xs))" by blast
    show ?thesis
    proof (cases ys)
      case Nil
      from d [unfolded Nil append_Nil] have "best # xs = first_max best xs # zs" .
      then have r: "first_max best xs = best" "xs = zs" by (metis list.inject)+
      have "best # x # xs = [] @ best # (x # zs)" using r by simp
      moreover have "\<forall>z\<in>set (x # zs). sint (snd z) \<le> sint (snd best)" using False le r by auto
      ultimately have "best # x # xs = [] @ best # (x # zs) \<and>
           (\<forall>y\<in>set []. sint (snd y) < sint (snd best)) \<and> (\<forall>z\<in>set (x # zs). sint (snd z) \<le> sint (snd best))"
        by simp
      then have "\<exists>ys zs. best # x # xs = ys @ best # zs \<and>
           (\<forall>y\<in>set ys. sint (snd y) < sint (snd best)) \<and> (\<forall>z\<in>set zs. sint (snd z) \<le> sint (snd best))"
        by (intro exI)
      then show ?thesis using False r by simp
    next
      case (Cons y ys')
      from d [unfolded Cons append_Cons]
      have "best # xs = y # ys' @ first_max best xs # zs" .
      then have y: "y = best" "xs = ys' @ first_max best xs # zs" by (metis list.inject)+
      have b: "sint (snd best) < sint (snd (first_max best xs))" using lt Cons y by simp
      have "best # x # xs = (best # x # ys') @ first_max best xs # zs" using y(2) by simp
      moreover have "\<forall>y\<in>set (best # x # ys'). sint (snd y) < sint (snd (first_max best xs))"
        using b False lt Cons by auto
      ultimately have "\<exists>ys zs. best # x # xs = ys @ first_max best xs # zs \<and>
           (\<forall>y\<in>set ys. sint (snd y) < sint (snd (first_max best xs))) \<and>
           (\<forall>z\<in>set zs. sint (snd z) \<le> sint (snd (first_max best xs)))"
        using le by blast
      then show ?thesis using False by simp
    qed
  qed
qed

lemma first_max_index:
  "\<exists>i<length (x # xs). first_max x xs = (x # xs) ! i \<and>
       (\<forall>j<length (x # xs). sint (snd ((x # xs) ! j)) \<le> sint (snd ((x # xs) ! i))) \<and>
       (\<forall>j<i. sint (snd ((x # xs) ! j)) < sint (snd ((x # xs) ! i)))"
proof -
  from first_max_split [of x xs] obtain ys zs where
    d: "x # xs = ys @ first_max x xs # zs"
    and lt: "\<forall>y\<in>set ys. sint (snd y) < sint (snd (first_max x xs))"
    and le: "\<forall>z\<in>set zs. sint (snd z) \<le> sint (snd (first_max x xs))" by blast
  let ?l = "ys @ first_max x xs # zs"
  have i: "length ys < length ?l" by simp
  have r: "?l ! length ys = first_max x xs" by simp
  have a: "\<forall>j<length ?l. sint (snd (?l ! j)) \<le> sint (snd (first_max x xs))"
  proof (intro allI impI)
    fix j assume "j < length ?l"
    then have "?l ! j \<in> set ?l" by (rule nth_mem)
    then show "sint (snd (?l ! j)) \<le> sint (snd (first_max x xs))" using lt le by auto
  qed
  have b: "\<forall>j<length ys. sint (snd (?l ! j)) < sint (snd (first_max x xs))"
  proof (intro allI impI)
    fix j assume j: "j < length ys"
    then have "?l ! j = ys ! j" by (simp add: nth_append)
    moreover have "ys ! j \<in> set ys" using j by simp
    ultimately show "sint (snd (?l ! j)) < sint (snd (first_max x xs))" using lt by simp
  qed
  show ?thesis
    unfolding d using i r a b by (intro exI [of _ "length ys"]) simp
qed

lemma sum_cell_words:
  "sum_list (map cell_word xs) = word_of_int (sum_list (map cell_int xs))"
  by (induction xs) (simp_all add: cell_word_def)

lemma int64_range_take_bit:
  assumes "int64_range k"
  shows "signed_take_bit 63 k = k"
proof -
  from assms have "- (2 ^ 63) \<le> k" "k < 2 ^ 63" unfolding int64_range_def by blast+
  then show ?thesis by (rule signed_take_bit_int_eq_self)
qed

lemma sint_int64_exact:
  assumes "int64_range k"
  shows "sint (word_of_int k :: int64) = k"
  using int64_range_take_bit [OF assms] by (simp add: signed_of_int)

lemma sint_int64_add:
  assumes "int64_range (sint a + sint b)"
  shows "sint (a + b :: int64) = sint a + sint b"
  using int64_range_take_bit [OF assms] by (simp add: sint_word_ariths)

lemma int64_cell_no_text: "int64_cell x \<Longrightarrow> \<not> is_text x"
  by (cases x) simp_all

lemma sum_cells_exact:
  assumes "\<forall>x\<in>set xs. \<not> is_text x"
    and "int64_range (sum_list (map cell_int xs))"
  shows "\<exists>w. sum_cells xs = Inr w \<and> sint w = sum_list (map cell_int xs)"
proof -
  have "sum_cells xs = Inr (word_of_int (sum_list (map cell_int xs)))"
    using sum_cells_numeric [OF assms(1)] unfolding sum_cell_words .
  moreover have "sint (word_of_int (sum_list (map cell_int xs)) :: int64) =
      sum_list (map cell_int xs)"
    using assms(2) by (rule sint_int64_exact)
  ultimately show ?thesis by blast
qed

text \<open>
  C8 (as amended). For a table of the session's shape with \<open>int64\<close> month columns
  and a non-empty list of distinct months of the horizon, in their chronological
  order, the per-month totals are the 64-bit column sums, which wrap around at
  \<open>2^63\<close>; the total of a month is the arithmetic sum of its cells whenever that
  sum is an \<open>int64\<close> number. The reported peak month is a month of the list whose
  total is the largest of these totals, every month before it in the list has a
  strictly smaller total, and the reported day count is the total of the peak
  month.
\<close>

theorem peak_month_first_maximum:
  assumes "table_shape t" "int64_table t" "set cols \<subseteq> set all_months" "distinct cols"
    and "cols \<noteq> []"
  shows "\<exists>totals i.
           month_totals t cols = Inr totals \<and> map fst totals = cols \<and>
           (\<forall>j<length cols. \<exists>xs. map_of (df_columns t) (cols ! j) = Some xs \<and>
              sum_cells xs = Inr (snd (totals ! j)) \<and>
              (int64_range (sum_list (map cell_int xs)) \<longrightarrow>
                 sint (snd (totals ! j)) = sum_list (map cell_int xs))) \<and>
           i < length cols \<and>
           phase_summary t cols = Inr (series_sum totals, cols ! i, Some (snd (totals ! i))) \<and>
           (\<forall>j<length cols. sint (snd (totals ! j)) \<le> sint (snd (totals ! i))) \<and>
           (\<forall>j<i. sint (snd (totals ! j)) < sint (snd (totals ! i)))"
proof -
  let ?s = "\<lambda>c. sum_list (map cell_word (the (map_of (df_columns t) c)))"
  let ?totals = "map (\<lambda>c. (c, ?s c)) cols"
  have 1: "month_totals t cols = Inr ?totals" using assms(1,3) by (rule month_totals_ok)
  have 2: "map fst ?totals = cols" by (simp add: o_def)
  have len: "length ?totals = length cols" by simp
  have 3: "\<forall>j<length cols. \<exists>xs. map_of (df_columns t) (cols ! j) = Some xs \<and>
              sum_cells xs = Inr (snd (?totals ! j)) \<and>
              (int64_range (sum_list (map cell_int xs)) \<longrightarrow>
                 sint (snd (?totals ! j)) = sum_list (map cell_int xs))"
  proof (intro allI impI)
    fix j assume j: "j < length cols"
    then have "cols ! j \<in> set all_months" using assms(3) nth_mem by blast
    with assms(1) obtain xs where xs: "map_of (df_columns t) (cols ! j) = Some xs"
      "\<forall>x\<in>set xs. \<not> is_text x" by (rule shape_month_column)
    have t: "snd (?totals ! j) = sum_list (map cell_word xs)" using xs(1) j by simp
    have a: "sum_cells xs = Inr (snd (?totals ! j))"
      unfolding t using xs(2) by (rule sum_cells_numeric)
    have b: "int64_range (sum_list (map cell_int xs)) \<longrightarrow>
        sint (snd (?totals ! j)) = sum_list (map cell_int xs)"
    proof
      assume r: "int64_range (sum_list (map cell_int xs))"
      have "snd (?totals ! j) = word_of_int (sum_list (map cell_int xs))"
        using t by (simp only: sum_cell_words)
      then show "sint (snd (?totals ! j)) = sum_list (map cell_int xs)"
        using sint_int64_exact [OF r] by (simp only:)
    qed
    from xs(1) a b show "\<exists>xs. map_of (df_columns t) (cols ! j) = Some xs \<and>
        sum_cells xs = Inr (snd (?totals ! j)) \<and>
        (int64_range (sum_list (map cell_int xs)) \<longrightarrow>
           sint (snd (?totals ! j)) = sum_list (map cell_int xs))"
      by blast
  qed
  obtain x xs where tx: "?totals = x # xs" using assms(5) by (cases ?totals) simp_all
  from first_max_index [of x xs] obtain i where
    i: "i < length (x # xs)" "first_max x xs = (x # xs) ! i"
      "\<forall>j<length (x # xs). sint (snd ((x # xs) ! j)) \<le> sint (snd ((x # xs) ! i))"
      "\<forall>j<i. sint (snd ((x # xs) ! j)) < sint (snd ((x # xs) ! i))" by blast
  have i': "i < length cols" using i(1) len unfolding tx by simp
  have f: "first_max x xs = ?totals ! i" using i(2) unfolding tx .
  have "fst (?totals ! i) = cols ! i" using i' by simp
  then have idx: "series_idxmax ?totals = Inr (cols ! i)"
    unfolding series_idxmax_def using f tx by simp
  have mx: "series_max ?totals = Some (snd (?totals ! i))"
    unfolding series_max_def using f tx by simp
  have 4: "phase_summary t cols = Inr (series_sum ?totals, cols ! i, Some (snd (?totals ! i)))"
    unfolding phase_summary_def 1 using idx mx by simp
  have 5: "\<forall>j<length cols. sint (snd (?totals ! j)) \<le> sint (snd (?totals ! i))"
    using i(3) len unfolding tx [symmetric] by simp
  have 6: "\<forall>j<i. sint (snd (?totals ! j)) < sint (snd (?totals ! i))"
    using i(4) unfolding tx [symmetric] .
  from 1 2 3 i' 4 5 6 show ?thesis by blast
qed

text \<open>
  C9 (as amended). For a table of the session's shape with \<open>int64\<close> month columns,
  the grand total over the horizon is the 64-bit sum of the total of Phase 1 and the
  total of Phase 2, which wraps around at \<open>2^63\<close>; the grand total is the
  arithmetic sum of the two phase totals whenever that sum is an \<open>int64\<close> number.
\<close>

theorem grand_total_is_sum_of_phases:
  assumes "table_shape t" "int64_table t"
  shows "\<exists>totals1 totals2 total.
           month_totals t phase1_cols = Inr totals1 \<and>
           month_totals t phase2_cols = Inr totals2 \<and>
           grand_total t = Inr total \<and>
           total = series_sum totals1 + series_sum totals2 \<and>
           (int64_range (sint (series_sum totals1) + sint (series_sum totals2)) \<longrightarrow>
              sint total = sint (series_sum totals1) + sint (series_sum totals2))"
proof -
  let ?s = "\<lambda>c. sum_list (map cell_word (the (map_of (df_columns t) c)))"
  let ?t1 = "map (\<lambda>c. (c, ?s c)) phase1_cols"
  let ?t2 = "map (\<lambda>c. (c, ?s c)) phase2_cols"
  have s1: "set phase1_cols \<subseteq> set all_months" and s2: "set phase2_cols \<subseteq> set all_months"
    unfolding all_months_split by simp_all
  have 1: "month_totals t phase1_cols = Inr ?t1"
    using assms(1) s1 by (rule month_totals_ok)
  have 2: "month_totals t phase2_cols = Inr ?t2"
    using assms(1) s2 by (rule month_totals_ok)
  have 3: "month_totals t all_months = Inr (map (\<lambda>c. (c, ?s c)) all_months)"
    using assms(1) by (rule month_totals_ok) simp
  have "series_sum (map (\<lambda>c. (c, ?s c)) (phase1_cols @ phase2_cols)) =
        series_sum ?t1 + series_sum ?t2"
    by (simp add: series_sum_def)
  then have 4: "grand_total t = Inr (series_sum ?t1 + series_sum ?t2)"
    unfolding grand_total_def 3 unfolding all_months_split by simp
  have 5: "int64_range (sint (series_sum ?t1) + sint (series_sum ?t2)) \<longrightarrow>
      sint (series_sum ?t1 + series_sum ?t2) = sint (series_sum ?t1) + sint (series_sum ?t2)"
    using sint_int64_add by blast
  from 1 2 4 5 show ?thesis by blast
qed

section \<open>Reconciliation\<close>

lemma sync_edits_cases:
  assumes "sync_edits t cols edited_df = Inr (t', rerun)"
  shows "t' = t \<and> \<not> rerun \<or>
         (\<exists>patch. df_select edited_df cols = Inr patch \<and> df_update t patch = Inr t' \<and> rerun)"
  using assms unfolding sync_edits_def by (auto split: sum.splits if_splits)

lemma df_update_result:
  assumes "df_update self other = Inr r"
  shows "r = self\<lparr>df_columns := map (update_column self other) (df_columns self)\<rparr>"
  using assms unfolding df_update_def by (auto split: if_splits)

lemma df_update_frame:
  assumes "df_update self other = Inr r"
  shows "df_index r = df_index self"
    and "map fst (df_columns r) = map fst (df_columns self)"
    and "map_of (df_columns other) c = None \<Longrightarrow> map_of (df_columns r) c = map_of (df_columns self) c"
proof -
  note r = df_update_result [OF assms]
  show "df_index r = df_index self" unfolding r by simp
  show "map fst (df_columns r) = map fst (df_columns self)"
    unfolding r using fst_update_columns [of self other "df_columns self"] by simp
  assume n: "map_of (df_columns other) c = None"
  have "map_of (df_columns r) c =
        (case map_of (df_columns self) c of
           None \<Rightarrow> None
         | Some this \<Rightarrow> Some (snd (update_column self other (c, this))))"
    unfolding r using map_of_update_columns [of self other "df_columns self" c] by simp
  also have "\<dots> = map_of (df_columns self) c"
    using n by (simp add: update_column_def split: option.splits)
  finally show "map_of (df_columns r) c = map_of (df_columns self) c" .
qed

lemma df_select_other_columns:
  assumes "df_select df cols = Inr sel" "c \<notin> set cols"
  shows "map_of (df_columns sel) c = None"
proof -
  have "sel = df\<lparr>df_columns := map (\<lambda>c. (c, the (map_of (df_columns df) c))) cols\<rparr>"
    using assms(1) unfolding df_select_def by (auto split: if_splits)
  then show ?thesis using assms(2) by (simp add: map_of_select)
qed

lemma sync_edits_frame:
  assumes "sync_edits t cols edited_df = Inr (t', rerun)"
  shows "df_index t' = df_index t"
    and "map fst (df_columns t') = map fst (df_columns t)"
    and "c \<notin> set cols \<Longrightarrow> map_of (df_columns t') c = map_of (df_columns t) c"
proof -
  from sync_edits_cases [OF assms]
  have "df_index t' = df_index t \<and> map fst (df_columns t') = map fst (df_columns t) \<and>
        (c \<notin> set cols \<longrightarrow> map_of (df_columns t') c = map_of (df_columns t) c)"
  proof
    assume "t' = t \<and> \<not> rerun"
    then show ?thesis by simp
  next
    assume "\<exists>patch. df_select edited_df cols = Inr patch \<and> df_update t patch = Inr t' \<and> rerun"
    then obtain patch where p: "df_select edited_df cols = Inr patch" "df_update t patch = Inr t'"
      by blast
    show ?thesis
      using df_update_frame [OF p(2)] df_select_other_columns [OF p(1)] by blast
  qed
  then show "df_index t' = df_index t"
    and "map fst (df_columns t') = map fst (df_columns t)"
    and "c \<notin> set cols \<Longrightarrow> map_of (df_columns t') c = map_of (df_columns t) c"
    by simp_all
qed

text \<open>
  C1. Whatever grid the editor hands back while a phase is viewed, a reconciliation
  that returns leaves the index and the column names of the table as they were and
  changes no column outside the columns of the phase: viewing Phase 1 leaves every
  column of a Phase 2 month unchanged, and the other way round, and the table gets
  no "Phase Total" column.
\<close>

theorem sync_edits_scope:
  assumes "sync_edits t cols edited_df = Inr (t', rerun)"
  shows "df_index t' = df_index t \<and>
         map fst (df_columns t') = map fst (df_columns t) \<and>
         (\<forall>c. c \<notin> set cols \<longrightarrow> map_of (df_columns t') c = map_of (df_columns t) c) \<and>
         (cols = phase1_cols \<longrightarrow>
            (\<forall>m\<in>set phase2_cols. map_of (df_columns t') m = map_of (df_columns t) m)) \<and>
         (cols = phase2_cols \<longrightarrow>
            (\<forall>m\<in>set phase1_cols. map_of (df_columns t') m = map_of (df_columns t) m)) \<and>
         (cols = phase1_cols \<or> cols = phase2_cols \<longrightarrow>
            map_of (df_columns t') ''Phase Total'' = map_of (df_columns t) ''Phase Total'' \<and>
            (''Phase Total'' \<in> set (map fst (df_columns t')) \<longleftrightarrow>
             ''Phase Total'' \<in> set (map fst (df_columns t))))"
proof -
  note f = sync_edits_frame [OF assms]
  have o: "\<forall>c. c \<notin> set cols \<longrightarrow> map_of (df_columns t') c = map_of (df_columns t) c"
    using f(3) by blast
  have d12: "\<forall>m\<in>set phase2_cols. m \<notin> set phase1_cols"
    and d21: "\<forall>m\<in>set phase1_cols. m \<notin> set phase2_cols"
    using phases_disjoint by blast+
  have pt: "''Phase Total'' \<notin> set phase1_cols" "''Phase Total'' \<notin> set phase2_cols"
    using phase_total_not_month unfolding all_months_split by simp_all
  show ?thesis
    using f(1,2) o d12 d21 pt by (simp only:) blast
qed












section \<open>Evaluation of the example states\<close>

lemma table_shape_initial: "table_shape initial_resource_df"
  by code_simp



lemma seeded_view_ok: "phase_view initial_resource_df phase1_cols = Inr seeded_view"
  by code_simp

lemma analyst_output: "editor_output seeded_view phase1_cols analyst_edit"
  by code_simp

lemma analyst_sync:
  "sync_edits initial_resource_df phase1_cols analyst_edit = Inr (analyst_table, True)"
  by code_simp


lemma negative_sync:
  "sync_edits initial_resource_df phase1_cols negative_edit = Inr (negative_table, True)"
  by code_simp

lemma table_shape_analyst: "table_shape analyst_table"
  by code_simp

lemma int64_table_analyst: "int64_table analyst_table"
  by code_simp

lemma table_shape_tie: "table_shape tie_table"
  by code_simp

lemma int64_table_tie: "int64_table tie_table"
  by code_simp

lemma phase_summary_tie: "phase_summary tie_table phase1_cols = Inr (20, ''Aug '25'', Some 10)"
  by code_simp

lemma phase_summary_analyst:
  "phase_summary analyst_table phase1_cols = Inr (15, ''Jul '25'', Some 10)"
  by code_simp

lemma grand_total_analyst: "grand_total analyst_table = Inr 15"
  by code_simp

lemma phase_summary_analyst2:
  "phase_summary analyst_table phase2_cols = Inr (0, ''Jul '26'', Some 0)"
  by code_simp

lemma tie_august:
  "map_of (df_columns tie_table) ''Aug '25'' = Some [Num 0, Num 0, Num 0, Num 0, Num 10]"
  by code_simp

lemma overflow_output: "editor_output seeded_view phase1_cols overflow_edit"
  by code_simp

lemma overflow_sync:
  "sync_edits initial_resource_df phase1_cols overflow_edit = Inr (overflow_table, True)"
  by code_simp

lemma table_shape_overflow: "table_shape overflow_table"
  by code_simp

lemma int64_table_overflow: "int64_table overflow_table"
  by code_simp

lemma phase_summary_overflow:
  "phase_summary overflow_table phase1_cols =
     Inr (word_of_int (- 9223372036854775808), ''Aug '25'', Some 0)"
  by code_simp

lemma wrap_output1: "editor_output seeded_view phase1_cols wrap_edit1"
  by code_simp

lemma wrap_sync1:
  "sync_edits initial_resource_df phase1_cols wrap_edit1 = Inr (wrap_table1, True)"
  by code_simp

lemma wrap_view2_ok: "phase_view wrap_table1 phase2_cols = Inr wrap_view2"
  by code_simp

lemma wrap_output2: "editor_output wrap_view2 phase2_cols wrap_edit2"
  by code_simp

lemma wrap_sync2: "sync_edits wrap_table1 phase2_cols wrap_edit2 = Inr (wrap_table, True)"
  by code_simp

lemma table_shape_wrap: "table_shape wrap_table"
  by code_simp

lemma int64_table_wrap: "int64_table wrap_table"
  by code_simp

lemma phase_summary_wrap1:
  "phase_summary wrap_table phase1_cols =
     Inr (word_of_int 9223372036854775807, ''Jul '25'', Some (word_of_int 9223372036854775807))"
  by code_simp

lemma phase_summary_wrap2:
  "phase_summary wrap_table phase2_cols = Inr (word_of_int 1, ''Jul '26'', Some (word_of_int 1))"
  by code_simp

lemma grand_total_wrap: "grand_total wrap_table = Inr (word_of_int (- 9223372036854775808))"
  by code_simp

lemma sint_wrap_values:
  "sint (word_of_int (- 9223372036854775808) :: int64) = - 9223372036854775808"
  "sint (word_of_int 9223372036854775807 :: int64) = 9223372036854775807"
  "sint (word_of_int 1 :: int64) = 1"
  by code_simp+

lemma phase1_in_horizon: "set phase1_cols \<subseteq> set all_months"
  unfolding all_months_split by simp


lemma phase1_distinct: "distinct phase1_cols"
  using all_months_distinct unfolding all_months_split by simp

lemma phase2_distinct: "distinct phase2_cols"
  using all_months_distinct unfolding all_months_split by simp

section \<open>Invariants of the reachable session states\<close>


lemma phase_cols_distinct:
  "cols = phase1_cols \<or> cols = phase2_cols \<Longrightarrow> distinct cols"
  using phase1_distinct phase2_distinct by blast





lemma initialize_empty: "initialize empty_session = seeded_session"
  by (simp add: initialize_def empty_session_def seeded_session_def)

lemma reachable_seeded: "reachable seeded_session"
  using reachable.initialized [OF reachable.fresh] unfolding initialize_empty .

lemma reachable_edit_of_seeded:
  assumes "editor_output seeded_view phase1_cols edited_df"
    and "sync_edits initial_resource_df phase1_cols edited_df = Inr (t', rerun)"
  shows "reachable (seeded_session\<lparr>resource_df := Some t'\<rparr>)"
proof -
  have r: "resource_df seeded_session = Some initial_resource_df"
    by (simp add: seeded_session_def)
  have p: "phase1_cols = phase1_cols \<or> phase1_cols = phase2_cols" by simp
  from reachable_seeded r p seeded_view_ok assms show ?thesis by (rule reachable.edited)
qed


section \<open>Initialisation\<close>

text \<open>
  C2. Running the initialisation a second time changes nothing, and a table that
  the session state already holds, whatever its values, is left exactly as it is;
  this holds for the allocation table and for the deliverables table.
\<close>

theorem initialize_idempotent:
  "initialize (initialize st) = initialize st \<and>
   (resource_df st = Some t \<longrightarrow> resource_df (initialize st) = Some t) \<and>
   (deliverables_df st = Some d \<longrightarrow> deliverables_df (initialize st) = Some d)"
  by (simp add: initialize_def Let_def)

text \<open>C2 at a session state that holds edited tables.\<close>

theorem initialize_idempotent_witness:
  "initialize (initialize edited_state) = initialize edited_state \<and>
   resource_df (initialize edited_state) = Some analyst_table \<and>
   deliverables_df (initialize edited_state) =
     Some (df_set_column initial_deliverables_df ''Jul '25'' [Str ''Kick-off'']) \<and>
   analyst_table \<noteq> initial_resource_df"
proof -
  have a: "resource_df edited_state = Some analyst_table"
    and b: "deliverables_df edited_state =
      Some (df_set_column initial_deliverables_df ''Jul '25'' [Str ''Kick-off''])"
    by (simp_all add: edited_state_def)
  have c: "analyst_table \<noteq> initial_resource_df" by code_simp
  show ?thesis
    using initialize_idempotent [of edited_state analyst_table
        "df_set_column initial_deliverables_df ''Jul '25'' [Str ''Kick-off'']"] a b c
    by simp
qed

section \<open>Witnesses and counterexamples of the reconciliation and aggregation claims\<close>



text \<open>
  C1 at the grid with a negative number, viewed in Phase 1: the column of July 2026
  and the metadata stay as they were, and the table has no "Phase Total" column.
\<close>

theorem sync_edits_scope_witness:
  "sync_edits initial_resource_df phase1_cols negative_edit = Inr (negative_table, True) \<and>
   map_of (df_columns negative_table) ''Jul '26'' =
     map_of (df_columns initial_resource_df) ''Jul '26'' \<and>
   map_of (df_columns negative_table) ''Grade'' =
     map_of (df_columns initial_resource_df) ''Grade'' \<and>
   ''Phase Total'' \<notin> set (map fst (df_columns negative_table))"
proof -
  note s = sync_edits_scope [OF negative_sync]
  have a: "''Jul '26'' \<in> set phase2_cols" unfolding phase2_cols_eq by simp
  have b: "''Grade'' \<notin> set phase1_cols" unfolding phase1_cols_eq by simp
  have c: "''Phase Total'' \<notin> set (map fst (df_columns initial_resource_df))"
    using table_shape_initial phase_total_not_month by (simp add: table_shape_def)
  from s a have "map_of (df_columns negative_table) ''Jul '26'' =
      map_of (df_columns initial_resource_df) ''Jul '26''" by blast
  moreover from s b have "map_of (df_columns negative_table) ''Grade'' =
      map_of (df_columns initial_resource_df) ''Grade''" by blast
  moreover from s c have "''Phase Total'' \<notin> set (map fst (df_columns negative_table))"
    by blast
  ultimately show ?thesis using negative_sync by simp
qed



text \<open>C7 at the table of the analyst pool example: all three sums are 15.\<close>

theorem phase_total_agrees_witness:
  "table_shape analyst_table \<and> int64_table analyst_table \<and>
   (\<exists>totals df_view sel phase_total.
      month_totals analyst_table phase1_cols = Inr totals \<and> series_sum totals = 15 \<and>
      phase_view analyst_table phase1_cols = Inr df_view \<and>
      df_select analyst_table phase1_cols = Inr sel \<and>
      map_of (df_columns df_view) ''Phase Total'' = Some phase_total \<and>
      sum_cells (all_cells sel) = Inr 15 \<and> sum_cells phase_total = Inr 15)"
proof -
  from phase_total_agrees [OF table_shape_analyst int64_table_analyst phase1_in_horizon
      phase1_distinct]
  obtain totals df_view sel phase_total where
    r: "month_totals analyst_table phase1_cols = Inr totals"
      "phase_view analyst_table phase1_cols = Inr df_view"
      "df_select analyst_table phase1_cols = Inr sel"
      "map_of (df_columns df_view) ''Phase Total'' = Some phase_total"
      "sum_cells (all_cells sel) = Inr (series_sum totals)"
      "sum_cells phase_total = Inr (series_sum totals)"
    by blast
  have "phase_summary analyst_table phase1_cols = Inr (15, ''Jul '25'', Some 10)"
    by (rule phase_summary_analyst)
  then have "series_sum totals = 15"
    unfolding phase_summary_def r(1) by (simp split: sum.splits)
  with r table_shape_analyst int64_table_analyst show ?thesis by auto
qed

text \<open>
  C8 (as amended) at the table with two months of 10 days: the peak month is the
  earlier one, August 2025.
\<close>

theorem peak_month_first_maximum_witness:
  "table_shape tie_table \<and> int64_table tie_table \<and> phase1_cols \<noteq> [] \<and>
   (\<exists>totals i. month_totals tie_table phase1_cols = Inr totals \<and>
      i < length phase1_cols \<and> phase1_cols ! i = ''Aug '25'' \<and> snd (totals ! i) = 10 \<and>
      phase_summary tie_table phase1_cols = Inr (20, ''Aug '25'', Some 10) \<and>
      sint (snd (totals ! 1)) = 10 \<and>
      (\<forall>j<length phase1_cols. sint (snd (totals ! j)) \<le> sint (10 :: int64)) \<and>
      (\<forall>j<i. sint (snd (totals ! j)) < sint (10 :: int64)))"
proof -
  have ne: "phase1_cols \<noteq> []" unfolding phase1_cols_eq by simp
  from peak_month_first_maximum [OF table_shape_tie int64_table_tie phase1_in_horizon
      phase1_distinct ne]
  obtain totals i where
    r: "month_totals tie_table phase1_cols = Inr totals"
      "i < length phase1_cols"
      "phase_summary tie_table phase1_cols =
         Inr (series_sum totals, phase1_cols ! i, Some (snd (totals ! i)))"
      "\<forall>j<length phase1_cols. sint (snd (totals ! j)) \<le> sint (snd (totals ! i))"
      "\<forall>j<i. sint (snd (totals ! j)) < sint (snd (totals ! i))"
    and x: "\<forall>j<length phase1_cols.
        \<exists>xs. map_of (df_columns tie_table) (phase1_cols ! j) = Some xs \<and>
          sum_cells xs = Inr (snd (totals ! j)) \<and>
          (int64_range (sum_list (map cell_int xs)) \<longrightarrow>
             sint (snd (totals ! j)) = sum_list (map cell_int xs))"
    by blast
  have j: "(1::nat) < length phase1_cols" "phase1_cols ! 1 = ''Aug '25''"
    unfolding phase1_cols_eq by simp_all
  from x j(1) obtain xs where
    xs: "map_of (df_columns tie_table) (phase1_cols ! 1) = Some xs"
      "int64_range (sum_list (map cell_int xs)) \<longrightarrow>
         sint (snd (totals ! 1)) = sum_list (map cell_int xs)"
    by blast
  have "xs = [Num 0, Num 0, Num 0, Num 0, Num 10]" using xs(1) j(2) tie_august by simp
  moreover have "int64_range (sum_list (map cell_int [Num 0, Num 0, Num 0, Num 0, Num 10]))"
    by (simp add: int64_range_def)
  ultimately have a: "sint (snd (totals ! 1)) = 10" using xs(2) by simp
  from r(3) have e: "series_sum totals = 20" "phase1_cols ! i = ''Aug '25''"
    "snd (totals ! i) = 10"
    unfolding phase_summary_tie by simp_all
  have 1: "\<forall>j<length phase1_cols. sint (snd (totals ! j)) \<le> sint (10 :: int64)"
    using r(4) unfolding e(3) .
  have 2: "\<forall>j<i. sint (snd (totals ! j)) < sint (10 :: int64)"
    using r(5) unfolding e(3) .
  from table_shape_tie int64_table_tie ne r(1,2) e(2,3) phase_summary_tie a 1 2
  show ?thesis by blast
qed

text \<open>
  C8 as stated fails: the editor can hand back \<open>2^62\<close> days in two rows of July
  2025. The arithmetic sum of July 2025 is \<open>2^63\<close>, the largest of the phase, but
  its 64-bit total wraps around to \<open>-2^63\<close>, and the script reports August 2025
  with 0 days as the peak month.
\<close>

theorem peak_month_counterexample:
  "reachable (seeded_session\<lparr>resource_df := Some overflow_table\<rparr>) \<and>
   table_shape overflow_table \<and> int64_table overflow_table \<and>
   map_of (df_columns overflow_table) ''Jul '25'' =
     Some [Num 4611686018427387904, Num 4611686018427387904, Num 0, Num 0, Num 0] \<and>
   map_of (df_columns overflow_table) ''Aug '25'' = Some [Num 0, Num 0, Num 0, Num 0, Num 0] \<and>
   sum_list (map cell_int [Num 0, Num 0, Num 0, Num 0, Num 0]) <
     sum_list (map cell_int
       [Num 4611686018427387904, Num 4611686018427387904, Num 0, Num 0, Num 0]) \<and>
   phase_summary overflow_table phase1_cols =
     Inr (word_of_int (- 9223372036854775808), ''Aug '25'', Some 0)"
proof -
  have "reachable (seeded_session\<lparr>resource_df := Some overflow_table\<rparr>)"
    using overflow_output overflow_sync by (rule reachable_edit_of_seeded)
  moreover have "map_of (df_columns overflow_table) ''Jul '25'' =
     Some [Num 4611686018427387904, Num 4611686018427387904, Num 0, Num 0, Num 0]"
    "map_of (df_columns overflow_table) ''Aug '25'' = Some [Num 0, Num 0, Num 0, Num 0, Num 0]"
    by code_simp+
  moreover have "sum_list (map cell_int [Num 0, Num 0, Num 0, Num 0, Num 0]) <
     sum_list (map cell_int
       [Num 4611686018427387904, Num 4611686018427387904, Num 0, Num 0, Num 0])"
    by simp
  ultimately show ?thesis
    using table_shape_overflow int64_table_overflow phase_summary_overflow by blast
qed

text \<open>C9 (as amended) at the table of the analyst pool example: the grand total is 15.\<close>

theorem grand_total_is_sum_of_phases_witness:
  "table_shape analyst_table \<and> int64_table analyst_table \<and>
   (\<exists>totals1 totals2.
      month_totals analyst_table phase1_cols = Inr totals1 \<and>
      month_totals analyst_table phase2_cols = Inr totals2 \<and>
      grand_total analyst_table = Inr 15 \<and>
      series_sum totals1 + series_sum totals2 = 15 \<and>
      sint (15 :: int64) = sint (series_sum totals1) + sint (series_sum totals2))"
proof -
  from grand_total_is_sum_of_phases [OF table_shape_analyst int64_table_analyst]
  obtain totals1 totals2 total where
    r: "month_totals analyst_table phase1_cols = Inr totals1"
      "month_totals analyst_table phase2_cols = Inr totals2"
      "grand_total analyst_table = Inr total"
      "total = series_sum totals1 + series_sum totals2"
      "int64_range (sint (series_sum totals1) + sint (series_sum totals2)) \<longrightarrow>
         sint total = sint (series_sum totals1) + sint (series_sum totals2)"
    by blast
  from r(3) have t: "total = 15" unfolding grand_total_analyst by simp
  have s1: "series_sum totals1 = 15"
    using phase_summary_analyst unfolding phase_summary_def r(1) by (simp split: sum.splits)
  have s2: "series_sum totals2 = 0"
    using phase_summary_analyst2 unfolding phase_summary_def r(2) by (simp split: sum.splits)
  have "int64_range (sint (15 :: int64) + sint (0 :: int64))"
    by (simp add: int64_range_def)
  then have "sint (15 :: int64) = sint (series_sum totals1) + sint (series_sum totals2)"
    using r(5) unfolding s1 s2 t by simp
  with r(1,2,4) t table_shape_analyst int64_table_analyst grand_total_analyst
  show ?thesis by auto
qed

text \<open>
  C9 as stated fails: after \<open>2^62\<close> and \<open>2^62 - 1\<close> days in July 2025 and one day
  in July 2026, the total of Phase 1 is \<open>2^63 - 1\<close> and the total of Phase 2 is 1,
  but the grand total wraps around to \<open>-2^63\<close>.
\<close>

theorem grand_total_counterexample:
  "reachable (seeded_session\<lparr>resource_df := Some wrap_table\<rparr>) \<and>
   table_shape wrap_table \<and> int64_table wrap_table \<and>
   phase_summary wrap_table phase1_cols =
     Inr (word_of_int 9223372036854775807, ''Jul '25'', Some (word_of_int 9223372036854775807)) \<and>
   phase_summary wrap_table phase2_cols = Inr (word_of_int 1, ''Jul '26'', Some (word_of_int 1)) \<and>
   grand_total wrap_table = Inr (word_of_int (- 9223372036854775808)) \<and>
   sint (word_of_int 9223372036854775807 :: int64) = 9223372036854775807 \<and>
   sint (word_of_int 1 :: int64) = 1 \<and>
   sint (word_of_int (- 9223372036854775808) :: int64) = - 9223372036854775808 \<and>
   sint (word_of_int (- 9223372036854775808) :: int64) \<noteq>
     sint (word_of_int 9223372036854775807 :: int64) + sint (word_of_int 1 :: int64)"
proof -
  have r1: "reachable (seeded_session\<lparr>resource_df := Some wrap_table1\<rparr>)"
    using wrap_output1 wrap_sync1 by (rule reachable_edit_of_seeded)
  have t1: "resource_df (seeded_session\<lparr>resource_df := Some wrap_table1\<rparr>) = Some wrap_table1"
    by simp
  have p: "phase2_cols = phase1_cols \<or> phase2_cols = phase2_cols" by simp
  from r1 t1 p wrap_view2_ok wrap_output2 wrap_sync2
  have "reachable (seeded_session\<lparr>resource_df := Some wrap_table1\<rparr>
      \<lparr>resource_df := Some wrap_table\<rparr>)"
    by (rule reachable.edited)
  then have r: "reachable (seeded_session\<lparr>resource_df := Some wrap_table\<rparr>)" by simp
  have ne: "sint (word_of_int (- 9223372036854775808) :: int64) \<noteq>
     sint (word_of_int 9223372036854775807 :: int64) + sint (word_of_int 1 :: int64)"
    unfolding sint_wrap_values by simp
  from r table_shape_wrap int64_table_wrap phase_summary_wrap1 phase_summary_wrap2
    grand_total_wrap sint_wrap_values ne
  show ?thesis by blast
qed

end
